theory Spec2Isabelle
  imports Complex_Main "HOL-Library.Monad_Syntax"
begin

section \<open>Tensors\<close>

text \<open>
  The notebook \<open>Multilayer perceptrons from scratch\<close> works on MXNet NDArrays of rank one
  (biases, labels, the per-sample loss) and rank two (weights, batches, activations). A rank-one
  array is a list of entries, a rank-two array a list of rows. The entries are floating-point
  numbers; the embedding keeps the element type \<open>'a\<close> and its arithmetic as a parameter
  (\<open>'a arith\<close>), so that everything proved for an arbitrary arithmetic holds whatever the
  rounding and the special values of the machine numbers are, and everything that needs the
  laws of the real numbers is stated for \<open>real_arith\<close>, exact arithmetic on \<open>real\<close>.
  Two further arithmetics show what the machine numbers add to it: \<open>nan_arith\<close> has a
  not-a-number, and \<open>underflow_arith\<close> has, besides, the underflow of the exponential in
  single precision.
  \<open>lit\<close> turns a Python number into an entry, \<open>to_int\<close> is \<open>astype('int32')\<close>.
\<close>

datatype 'a ndarray = Vec "'a list" | Mat "'a list list"

record 'a arith =
  lit :: "real \<Rightarrow> 'a"
  fadd :: "'a \<Rightarrow> 'a \<Rightarrow> 'a"
  fsub :: "'a \<Rightarrow> 'a \<Rightarrow> 'a"
  fmul :: "'a \<Rightarrow> 'a \<Rightarrow> 'a"
  fdiv :: "'a \<Rightarrow> 'a \<Rightarrow> 'a"
  fneg :: "'a \<Rightarrow> 'a"
  fexp :: "'a \<Rightarrow> 'a"
  flog :: "'a \<Rightarrow> 'a"
  fmax :: "'a \<Rightarrow> 'a \<Rightarrow> 'a"
  fless :: "'a \<Rightarrow> 'a \<Rightarrow> bool"
  to_int :: "'a \<Rightarrow> int"

definition real_arith :: "real arith" where
  "real_arith = \<lparr>lit = (\<lambda>x. x), fadd = (+), fsub = (-), fmul = (*), fdiv = (/),
     fneg = uminus, fexp = exp, flog = ln, fmax = max, fless = (<),
     to_int = (\<lambda>x. if 0 \<le> x then \<lfloor>x\<rfloor> else \<lceil>x\<rceil>)\<rparr>"

fun rows_of :: "'a ndarray \<Rightarrow> 'a list list" where
  "rows_of (Vec v) = [v]"
| "rows_of (Mat m) = m"

fun is_vec :: "'a ndarray \<Rightarrow> bool" where
  "is_vec (Vec v) = True"
| "is_vec (Mat m) = False"

definition ncols :: "'a list list \<Rightarrow> nat" where
  "ncols m = (case m of [] \<Rightarrow> 0 | r # _ \<Rightarrow> length r)"

fun shape :: "'a ndarray \<Rightarrow> nat list" where
  "shape (Vec v) = [length v]"
| "shape (Mat m) = [length m, ncols m]"

text \<open>A matrix with \<open>n\<close> rows of \<open>k\<close> entries each.\<close>

definition is_mat :: "nat \<Rightarrow> nat \<Rightarrow> 'a list list \<Rightarrow> bool" where
  "is_mat n k m = (length m = n \<and> list_all (\<lambda>r. length r = k) m)"

text \<open>An NDArray of this MXNet version has no dimension of size zero.\<close>

fun wf_nd :: "'a ndarray \<Rightarrow> bool" where
  "wf_nd (Vec v) = (v \<noteq> [])"
| "wf_nd (Mat m) = (m \<noteq> [] \<and> ncols m \<noteq> 0 \<and> is_mat (length m) (ncols m) m)"

fun flat :: "'a ndarray \<Rightarrow> 'a list" where
  "flat (Vec v) = v"
| "flat (Mat m) = concat m"

fun map_nd :: "('a \<Rightarrow> 'a) \<Rightarrow> 'a ndarray \<Rightarrow> 'a ndarray" where
  "map_nd f (Vec v) = Vec (map f v)"
| "map_nd f (Mat m) = Mat (map (map f) m)"

section \<open>The tensor operations the notebook calls\<close>

text \<open>
  The operators \<open>+\<close>, \<open>-\<close>, \<open>*\<close>, \<open>/\<close> on NDArrays and \<open>nd.maximum\<close> broadcast: the
  shapes are aligned at their last axis, two aligned dimensions must be equal or one of them
  must be 1, and a dimension of size 1 is repeated. A call whose shapes do not fit raises;
  \<open>None\<close> is the raised error.
\<close>

definition bdim :: "nat \<Rightarrow> nat \<Rightarrow> nat option" where
  "bdim l r = (if l = r then Some l else if l = 1 then Some r else if r = 1 then Some l else None)"

definition stretch :: "nat \<Rightarrow> 'b list \<Rightarrow> 'b list" where
  "stretch n xs = (case xs of [x] \<Rightarrow> replicate n x | _ \<Rightarrow> xs)"

definition broadcast_op :: "('a \<Rightarrow> 'a \<Rightarrow> 'a) \<Rightarrow> 'a ndarray \<Rightarrow> 'a ndarray \<Rightarrow> 'a ndarray option" where
  "broadcast_op f a b =
     (case bdim (length (rows_of a)) (length (rows_of b)) of
        None \<Rightarrow> None
      | Some n \<Rightarrow>
         (case bdim (ncols (rows_of a)) (ncols (rows_of b)) of
            None \<Rightarrow> None
          | Some k \<Rightarrow>
             let ra = stretch n (map (stretch k) (rows_of a));
                 rb = stretch n (map (stretch k) (rows_of b));
                 out = map2 (map2 f) ra rb
             in Some (if is_vec a \<and> is_vec b then Vec (concat out) else Mat out)))"

definition nd_add :: "'a arith \<Rightarrow> 'a ndarray \<Rightarrow> 'a ndarray \<Rightarrow> 'a ndarray option" where
  "nd_add A = broadcast_op (fadd A)"

definition nd_sub :: "'a arith \<Rightarrow> 'a ndarray \<Rightarrow> 'a ndarray \<Rightarrow> 'a ndarray option" where
  "nd_sub A = broadcast_op (fsub A)"

definition nd_mul :: "'a arith \<Rightarrow> 'a ndarray \<Rightarrow> 'a ndarray \<Rightarrow> 'a ndarray option" where
  "nd_mul A = broadcast_op (fmul A)"

definition nd_div :: "'a arith \<Rightarrow> 'a ndarray \<Rightarrow> 'a ndarray \<Rightarrow> 'a ndarray option" where
  "nd_div A = broadcast_op (fdiv A)"

definition nd_maximum :: "'a arith \<Rightarrow> 'a ndarray \<Rightarrow> 'a ndarray \<Rightarrow> 'a ndarray option" where
  "nd_maximum A = broadcast_op (fmax A)"

definition nd_zeros_like :: "'a arith \<Rightarrow> 'a ndarray \<Rightarrow> 'a ndarray" where
  "nd_zeros_like A X = map_nd (\<lambda>_. lit A 0) X"

definition nd_exp :: "'a arith \<Rightarrow> 'a ndarray \<Rightarrow> 'a ndarray" where
  "nd_exp A X = map_nd (fexp A) X"

definition nd_log :: "'a arith \<Rightarrow> 'a ndarray \<Rightarrow> 'a ndarray" where
  "nd_log A X = map_nd (flog A) X"

definition nd_neg :: "'a arith \<Rightarrow> 'a ndarray \<Rightarrow> 'a ndarray" where
  "nd_neg A X = map_nd (fneg A) X"

text \<open>\<open>lr * param.grad\<close>: a Python number times an NDArray multiplies every entry.\<close>

definition nd_scale :: "'a arith \<Rightarrow> 'a \<Rightarrow> 'a ndarray \<Rightarrow> 'a ndarray" where
  "nd_scale A c X = map_nd (fmul A c) X"

text \<open>\<open>nd.max(X)\<close> without an axis: the largest entry of the whole array, as an array of shape (1,).\<close>

definition nd_max :: "'a arith \<Rightarrow> 'a ndarray \<Rightarrow> 'a ndarray option" where
  "nd_max A X = (case flat X of [] \<Rightarrow> None | x # xs \<Rightarrow> Some (Vec [foldl (fmax A) x xs]))"

definition fsum :: "'a arith \<Rightarrow> 'a list \<Rightarrow> 'a" where
  "fsum A xs = foldl (fadd A) (lit A 0) xs"

text \<open>
  \<open>nd.sum(X, axis=0, exclude=True)\<close> sums over every axis but the first: one sum per row of a
  matrix; a rank-one array has no other axis and is returned as it is.
\<close>

fun nd_sum_rows :: "'a arith \<Rightarrow> 'a ndarray \<Rightarrow> 'a ndarray" where
  "nd_sum_rows A (Vec v) = Vec v"
| "nd_sum_rows A (Mat m) = Vec (map (fsum A) m)"

text \<open>\<open>X.reshape((-1,1))\<close>: the entries in row-major order, one per row.\<close>

definition reshape_col :: "'a ndarray \<Rightarrow> 'a ndarray" where
  "reshape_col X = Mat (map (\<lambda>x. [x]) (flat X))"

text \<open>
  \<open>nd.dot(X, W)\<close> of two matrices, the only use the notebook makes of it; the inner
  dimensions must agree.
\<close>

definition dot_row :: "'a arith \<Rightarrow> 'a list \<Rightarrow> 'a list list \<Rightarrow> nat \<Rightarrow> 'a" where
  "dot_row A r W j = fsum A (map2 (\<lambda>x w. fmul A x (w ! j)) r W)"

fun nd_dot :: "'a arith \<Rightarrow> 'a ndarray \<Rightarrow> 'a ndarray \<Rightarrow> 'a ndarray option" where
  "nd_dot A (Mat X) (Mat W) =
     (if ncols X = length W
      then Some (Mat (map (\<lambda>r. map (dot_row A r W) [0..<ncols W]) X))
      else None)"
| "nd_dot A _ _ = None"

section \<open>The functions of the notebook\<close>

text \<open>\<open>def relu(X): return nd.maximum(X, nd.zeros_like(X))\<close>\<close>

definition relu :: "'a arith \<Rightarrow> 'a ndarray \<Rightarrow> 'a ndarray option" where
  "relu A X = nd_maximum A X (nd_zeros_like A X)"

text \<open>
  \<^verbatim>\<open>
  def softmax(y_linear):
      exp = nd.exp(y_linear-nd.max(y_linear))
      partition =nd.sum(exp, axis=0, exclude=True).reshape((-1,1))
      return exp / partition
  \<close>
\<close>

definition softmax :: "'a arith \<Rightarrow> 'a ndarray \<Rightarrow> 'a ndarray option" where
  "softmax A y_linear = do {
     mx \<leftarrow> nd_max A y_linear;
     shifted \<leftarrow> nd_sub A y_linear mx;
     let ex = nd_exp A shifted;
     let partition = reshape_col (nd_sum_rows A ex);
     nd_div A ex partition
   }"

text \<open>
  \<^verbatim>\<open>
  def cross_entropy(yhat, y):
      return - nd.sum(y * nd.log(yhat), axis=0, exclude=True)
  \<close>
\<close>

definition cross_entropy :: "'a arith \<Rightarrow> 'a ndarray \<Rightarrow> 'a ndarray \<Rightarrow> 'a ndarray option" where
  "cross_entropy A yhat y = do {
     prod \<leftarrow> nd_mul A y (nd_log A yhat);
     Some (nd_neg A (nd_sum_rows A prod))
   }"

text \<open>
  Elementwise combination of two arrays of the same shape, the meaning of a broadcasting
  operator when nothing has to be repeated.
\<close>

fun zip_nd :: "('a \<Rightarrow> 'a \<Rightarrow> 'a) \<Rightarrow> 'a ndarray \<Rightarrow> 'a ndarray \<Rightarrow> 'a ndarray" where
  "zip_nd f (Vec u) (Vec v) = Vec (map2 f u v)"
| "zip_nd f (Mat a) (Mat b) = Mat (map2 (map2 f) a b)"
| "zip_nd f a b = a"

section \<open>Parameters and the model\<close>

text \<open>
  A parameter is a tensor object with a value buffer and, after \<open>attach_grad()\<close>, a gradient
  buffer. The objects live in a store; the global names \<open>W1\<close>, ..., \<open>b3\<close> are bound to six
  objects, and \<open>params\<close> is the list of these six references.
\<close>

type_synonym addr = nat

record 'a tensor =
  buf :: "'a ndarray"
  grad :: "'a ndarray option"

type_synonym 'a store = "addr \<Rightarrow> 'a tensor option"

definition W1 :: addr where "W1 = 0"
definition b1 :: addr where "b1 = 1"
definition W2 :: addr where "W2 = 2"
definition b2 :: addr where "b2 = 3"
definition W3 :: addr where "W3 = 4"
definition b3 :: addr where "b3 = 5"

definition params :: "addr list" where
  "params = [W1, b1, W2, b2, W3, b3]"

definition lookup :: "'a store \<Rightarrow> addr \<Rightarrow> 'a ndarray option" where
  "lookup \<sigma> a = map_option buf (\<sigma> a)"

text \<open>
  \<^verbatim>\<open>
  def net(X):
      h1_linear = nd.dot(X, W1) + b1
      h1 = relu(h1_linear)
      h2_linear = nd.dot(h1, W2) + b2
      h2 = relu(h2_linear)
      yhat_linear = nd.dot(h2, W3) + b3
      yhat = softmax(yhat_linear)
      return yhat
  \<close>
\<close>

definition net :: "'a arith \<Rightarrow> 'a store \<Rightarrow> 'a ndarray \<Rightarrow> 'a ndarray option" where
  "net A \<sigma> X = do {
     w1 \<leftarrow> lookup \<sigma> W1;
     d1 \<leftarrow> nd_dot A X w1;
     c1 \<leftarrow> lookup \<sigma> b1;
     h1_linear \<leftarrow> nd_add A d1 c1;
     h1 \<leftarrow> relu A h1_linear;
     w2 \<leftarrow> lookup \<sigma> W2;
     d2 \<leftarrow> nd_dot A h1 w2;
     c2 \<leftarrow> lookup \<sigma> b2;
     h2_linear \<leftarrow> nd_add A d2 c2;
     h2 \<leftarrow> relu A h2_linear;
     w3 \<leftarrow> lookup \<sigma> W3;
     d3 \<leftarrow> nd_dot A h2 w3;
     c3 \<leftarrow> lookup \<sigma> b3;
     yhat_linear \<leftarrow> nd_add A d3 c3;
     softmax A yhat_linear
   }"

text \<open>
  \<^verbatim>\<open>
  def SGD(params, lr):
      for param in params:
          param[:] = param - lr * param.grad
  \<close>
  The slice assignment copies the right-hand side into the buffer of the object \<open>param\<close>
  refers to; the shapes must agree. A parameter without a gradient buffer has
  \<open>param.grad = None\<close>, and the multiplication raises.
\<close>

definition assign_all :: "'a ndarray \<Rightarrow> 'a ndarray \<Rightarrow> 'a ndarray option" where
  "assign_all dst src = (if shape src = shape dst then Some src else None)"

fun SGD :: "'a arith \<Rightarrow> addr list \<Rightarrow> real \<Rightarrow> 'a store \<Rightarrow> 'a store option" where
  "SGD A [] lr \<sigma> = Some \<sigma>"
| "SGD A (param # rest) lr \<sigma> = do {
     t \<leftarrow> \<sigma> param;
     g \<leftarrow> grad t;
     new \<leftarrow> nd_sub A (buf t) (nd_scale A (lit A lr) g);
     v \<leftarrow> assign_all (buf t) new;
     SGD A rest lr (\<sigma>(param \<mapsto> t\<lparr>buf := v\<rparr>))
   }"

section \<open>Data iterators and the accuracy metric\<close>

text \<open>
  An \<open>NDArrayIter\<close> yields the same batches after every \<open>reset()\<close>; it is the list of its
  batches. \<open>batch.data[0]\<close> holds the images of the batch, \<open>batch.label[0]\<close> the class index
  of each image.
\<close>

record 'a batch =
  bdata :: "'a ndarray"
  blabel :: "'a ndarray"

text \<open>\<open>X.reshape((-1,k))\<close>: the entries in row-major order, \<open>k\<close> per row.\<close>

function chop :: "nat \<Rightarrow> 'b list \<Rightarrow> 'b list list" where
  "chop k xs = (if k = 0 \<or> xs = [] then [] else take k xs # chop k (drop k xs))"
  by pat_completeness auto
termination
  by (relation "measure (\<lambda>(k, xs). length xs)") auto

declare chop.simps [simp del]

definition reshape_rows :: "nat \<Rightarrow> 'a ndarray \<Rightarrow> 'a ndarray option" where
  "reshape_rows k X =
     (if k \<noteq> 0 \<and> flat X \<noteq> [] \<and> length (flat X) mod k = 0
      then Some (Mat (chop k (flat X))) else None)"

text \<open>\<open>nd.one_hot(label, depth)\<close>: row \<open>i\<close> has a one at column \<open>label[i]\<close> and zeros elsewhere.\<close>

definition nd_one_hot :: "'a arith \<Rightarrow> 'a ndarray \<Rightarrow> nat \<Rightarrow> 'a ndarray" where
  "nd_one_hot A label depth =
     Mat (map (\<lambda>l. map (\<lambda>j. if to_int A l = int j then lit A 1 else lit A 0) [0..<depth])
            (flat label))"

text \<open>
  \<open>mx.metric.Accuracy\<close> keeps two counters. \<open>update([label], [output])\<close> takes the index of the
  first largest entry of each row of \<open>output\<close> as the predicted class, adds the number of rows
  whose prediction equals the label to \<open>sum_metric\<close> and the number of rows to \<open>num_inst\<close>; it
  raises when the numbers of labels and of rows differ. \<open>get()\<close> returns their quotient, and
  \<open>nan\<close> while \<open>num_inst\<close> is zero. Only a rank-one label with a rank-two output, which is what
  \<open>evaluate_accuracy\<close> passes, is covered.
\<close>

record metric =
  sum_metric :: nat
  num_inst :: nat

datatype pyfloat = Float real | NaN

definition Accuracy :: metric where
  "Accuracy = \<lparr>sum_metric = 0, num_inst = 0\<rparr>"

fun argmax_from :: "'a arith \<Rightarrow> 'a \<Rightarrow> nat \<Rightarrow> nat \<Rightarrow> 'a list \<Rightarrow> nat" where
  "argmax_from A best bi i [] = bi"
| "argmax_from A best bi i (x # xs) =
     (if fless A best x then argmax_from A x i (Suc i) xs
      else argmax_from A best bi (Suc i) xs)"

definition argmax_row :: "'a arith \<Rightarrow> 'a list \<Rightarrow> nat" where
  "argmax_row A r = (case r of [] \<Rightarrow> 0 | x # xs \<Rightarrow> argmax_from A x 0 1 xs)"

text \<open>The number of rows of \<open>output\<close> whose predicted class is the label.\<close>

definition hits :: "'a arith \<Rightarrow> 'a list \<Rightarrow> 'a list list \<Rightarrow> nat" where
  "hits A label output =
     length (filter (\<lambda>(r, l). int (argmax_row A r) = to_int A l) (zip output label))"

fun metric_update :: "'a arith \<Rightarrow> metric \<Rightarrow> 'a ndarray \<Rightarrow> 'a ndarray \<Rightarrow> metric option" where
  "metric_update A m (Vec label) (Mat output) =
     (if length label = length output
      then Some \<lparr>sum_metric = sum_metric m + hits A label output,
                 num_inst = num_inst m + length output\<rparr>
      else None)"
| "metric_update A m _ _ = None"

definition metric_get :: "metric \<Rightarrow> pyfloat" where
  "metric_get m =
     (if num_inst m = 0 then NaN else Float (real (sum_metric m) / real (num_inst m)))"

text \<open>
  \<^verbatim>\<open>
  metric = mx.metric.Accuracy()

  def evaluate_accuracy(data_iterator, net):
      numerator = 0.
      denominator = 0.
      data_iterator.reset()
      for i, batch in enumerate(data_iterator):
          with autograd.record():
              data = batch.data[0].as_in_context(ctx).reshape((-1,784))
              label = batch.label[0].as_in_context(ctx)
              label_one_hot = nd.one_hot(label, 10)
              output = net(data)
          metric.update([label], [output])
      return metric.get()[1]
  \<close>
  \<open>metric\<close> is a global object: the function takes its state and returns the new state beside
  the returned accuracy.
\<close>

fun evaluate_batches ::
  "'a arith \<Rightarrow> 'a batch list \<Rightarrow> ('a ndarray \<Rightarrow> 'a ndarray option) \<Rightarrow> metric \<Rightarrow> metric option" where
  "evaluate_batches A [] net_fn m = Some m"
| "evaluate_batches A (batch # rest) net_fn m = do {
     data \<leftarrow> reshape_rows 784 (bdata batch);
     let label = blabel batch;
     let label_one_hot = nd_one_hot A label 10;
     output \<leftarrow> net_fn data;
     m' \<leftarrow> metric_update A m label output;
     evaluate_batches A rest net_fn m'
   }"

definition evaluate_accuracy ::
  "'a arith \<Rightarrow> 'a batch list \<Rightarrow> ('a ndarray \<Rightarrow> 'a ndarray option) \<Rightarrow> metric
     \<Rightarrow> (metric \<times> pyfloat) option" where
  "evaluate_accuracy A data_iterator net_fn m = do {
     m' \<leftarrow> evaluate_batches A data_iterator net_fn m;
     Some (m', metric_get m')
   }"

section \<open>The training loop\<close>

text \<open>
  \<open>loss.backward()\<close> is the work of MXNet's automatic differentiation: it writes, into the
  gradient buffer of every parameter, the gradient of the recorded loss. The engine is a
  parameter \<open>G\<close> of the model: \<open>G \<sigma> data y a\<close> is the gradient it computes for the object \<open>a\<close>
  from the parameter values in \<open>\<sigma>\<close>, the batch \<open>data\<close> and the one-hot labels \<open>y\<close>.
\<close>

type_synonym 'a autograd = "'a store \<Rightarrow> 'a ndarray \<Rightarrow> 'a ndarray \<Rightarrow> addr \<Rightarrow> 'a ndarray"

definition backward :: "'a autograd \<Rightarrow> 'a store \<Rightarrow> 'a ndarray \<Rightarrow> 'a ndarray \<Rightarrow> 'a store" where
  "backward G \<sigma> data y =
     (\<lambda>a. case \<sigma> a of
            None \<Rightarrow> None
          | Some t \<Rightarrow>
              if a \<in> set params \<and> grad t \<noteq> None
              then Some (t\<lparr>grad := Some (G \<sigma> data y a)\<rparr>)
              else Some t)"

text \<open>
  \<open>np.mean(loss.asnumpy()[0])\<close>: element 0 of a rank-one loss is a number and its own mean;
  element 0 of a rank-two array is its first row. An empty array has no element 0.
\<close>

fun first_mean :: "'a arith \<Rightarrow> 'a ndarray \<Rightarrow> 'a option" where
  "first_mean A (Vec (x # xs)) = Some x"
| "first_mean A (Mat (r # rs)) = Some (fdiv A (fsum A r) (lit A (real (length r))))"
| "first_mean A _ = None"

text \<open>
  The body of the inner loop up to the call of \<open>SGD\<close>:
  \<^verbatim>\<open>
          with autograd.record():
              data = batch.data[0].as_in_context(ctx).reshape((-1,784))
              label = batch.label[0].as_in_context(ctx)
              label_one_hot = nd.one_hot(label, 10)
              output = net(data)
              loss = cross_entropy(output, label_one_hot)
              loss.backward()
          SGD(params, .01)
  \<close>
\<close>

definition train_batch ::
  "'a arith \<Rightarrow> 'a autograd \<Rightarrow> 'a store \<Rightarrow> 'a batch \<Rightarrow> ('a store \<times> 'a ndarray) option" where
  "train_batch A G \<sigma> batch = do {
     data \<leftarrow> reshape_rows 784 (bdata batch);
     let label = blabel batch;
     let label_one_hot = nd_one_hot A label 10;
     output \<leftarrow> net A \<sigma> data;
     loss \<leftarrow> cross_entropy A output label_one_hot;
     let \<sigma>1 = backward G \<sigma> data label_one_hot;
     \<sigma>2 \<leftarrow> SGD A params (1 / 100) \<sigma>1;
     Some (\<sigma>2, loss)
   }"

text \<open>
  The inner loop, \<open>for i, batch in enumerate(train_data)\<close>, with the moving average:
  \<^verbatim>\<open>
          if i == 0:
              moving_loss = np.mean(loss.asnumpy()[0])
          else:
              moving_loss = .99 * moving_loss + .01 * np.mean(loss.asnumpy()[0])
  \<close>
\<close>

fun train_batches ::
  "'a arith \<Rightarrow> 'a autograd \<Rightarrow> nat \<Rightarrow> 'a batch list \<Rightarrow> 'a store \<times> 'a \<Rightarrow> ('a store \<times> 'a) option" where
  "train_batches A G i [] (\<sigma>, moving_loss) = Some (\<sigma>, moving_loss)"
| "train_batches A G i (batch # rest) (\<sigma>, moving_loss) = do {
     (\<sigma>', loss) \<leftarrow> train_batch A G \<sigma> batch;
     l \<leftarrow> first_mean A loss;
     train_batches A G (Suc i) rest
       (\<sigma>', if i = 0 then l
            else fadd A (fmul A (lit A (99 / 100)) moving_loss) (fmul A (lit A (1 / 100)) l))
   }"

text \<open>
  The outer loop, \<open>for e in range(epochs)\<close>; \<open>print\<close> appends a line with the epoch, the
  moving loss, the training accuracy and the test accuracy.
  \<^verbatim>\<open>
  epochs = 10
  moving_loss = 0.
  for e in range(epochs):
      train_data.reset()
      for i, batch in enumerate(train_data):
          ...
      test_accuracy = evaluate_accuracy(test_data, net)
      train_accuracy = evaluate_accuracy(train_data, net)
      print("Epoch %s. Loss: %s, Train_acc %s, Test_acc %s" % (e, moving_loss, train_accuracy, test_accuracy))
  \<close>
\<close>

record 'a state =
  tensors :: "'a store"
  the_metric :: metric
  moving_loss :: 'a
  printed :: "(nat \<times> 'a \<times> pyfloat \<times> pyfloat) list"

fun train_epochs ::
  "'a arith \<Rightarrow> 'a autograd \<Rightarrow> 'a batch list \<Rightarrow> 'a batch list \<Rightarrow> nat list \<Rightarrow> 'a state
     \<Rightarrow> 'a state option" where
  "train_epochs A G train_data test_data [] s = Some s"
| "train_epochs A G train_data test_data (e # es) s = do {
     (\<sigma>, ml) \<leftarrow> train_batches A G 0 train_data (tensors s, moving_loss s);
     (m1, test_accuracy) \<leftarrow> evaluate_accuracy A test_data (net A \<sigma>) (the_metric s);
     (m2, train_accuracy) \<leftarrow> evaluate_accuracy A train_data (net A \<sigma>) m1;
     train_epochs A G train_data test_data es
       (s\<lparr>tensors := \<sigma>, the_metric := m2, moving_loss := ml,
          printed := printed s @ [(e, ml, train_accuracy, test_accuracy)]\<rparr>)
   }"



section \<open>Reference functions\<close>

text \<open>
  What \<open>softmax\<close> computes on one row, given the number \<open>m\<close> it subtracts, and the number it
  subtracts: the largest entry of the whole matrix.
\<close>

definition global_max :: "'a arith \<Rightarrow> 'a list list \<Rightarrow> 'a" where
  "global_max A y = (case concat y of [] \<Rightarrow> lit A 0 | x # xs \<Rightarrow> foldl (fmax A) x xs)"

definition softmax_row :: "'a arith \<Rightarrow> 'a \<Rightarrow> 'a list \<Rightarrow> 'a list" where
  "softmax_row A m r =
     (let e = map (\<lambda>x. fexp A (fsub A x m)) r in map (\<lambda>x. fdiv A x (fsum A e)) e)"

text \<open>The normalisation without a shift: \<open>exp(y)\<close> divided, row by row, by the row sums of \<open>exp(y)\<close>.\<close>

definition unshifted_softmax :: "real list list \<Rightarrow> real list list" where
  "unshifted_softmax y = map (\<lambda>r. map (\<lambda>x. exp x / sum_list (map exp r)) r) y"

text \<open>One entry of the loss: minus the sum of \<open>y * log(yhat)\<close> over a row.\<close>

definition ce_row :: "'a arith \<Rightarrow> 'a list \<Rightarrow> 'a list \<Rightarrow> 'a" where
  "ce_row A y_row yhat_row =
     fneg A (fsum A (map2 (\<lambda>t p. fmul A t (flog A p)) y_row yhat_row))"

text \<open>A one-hot row of \<open>k\<close> classes with true class \<open>c\<close>.\<close>

definition one_hot_row :: "nat \<Rightarrow> nat \<Rightarrow> real list" where
  "one_hot_row k c = map (\<lambda>j. if j = c then 1 else 0) [0..<k]"

text \<open>
  The state of a parameter after \<open>attach_grad()\<close>: a gradient buffer of the shape of the
  value.
\<close>

definition attached :: "'a tensor \<Rightarrow> bool" where
  "attached t =
     (case grad t of None \<Rightarrow> False
      | Some g \<Rightarrow> wf_nd (buf t) \<and> wf_nd g \<and> shape g = shape (buf t))"

text \<open>The previous value minus \<open>lr\<close> times the gradient, entry by entry.\<close>

definition descent :: "'a arith \<Rightarrow> real \<Rightarrow> 'a ndarray \<Rightarrow> 'a ndarray \<Rightarrow> 'a ndarray" where
  "descent A lr v g = zip_nd (fsub A) v (map_nd (fmul A (lit A lr)) g)"

text \<open>
  Example stores: one object that a parameter list names twice, and six small parameters with a
  seventh object that has no gradient.
\<close>

definition dup_store :: "real store" where
  "dup_store = Map.empty(0 \<mapsto> \<lparr>buf = Vec [1], grad = Some (Vec [1])\<rparr>)"

definition small_store :: "real store" where
  "small_store = Map.empty
     (0 \<mapsto> \<lparr>buf = Mat [[1, 2]], grad = Some (Mat [[1, 1]])\<rparr>,
      1 \<mapsto> \<lparr>buf = Vec [0, 0], grad = Some (Vec [1, 1])\<rparr>,
      2 \<mapsto> \<lparr>buf = Mat [[1], [1]], grad = Some (Mat [[0], [0]])\<rparr>,
      3 \<mapsto> \<lparr>buf = Vec [0], grad = Some (Vec [0])\<rparr>,
      4 \<mapsto> \<lparr>buf = Mat [[1]], grad = Some (Mat [[2]])\<rparr>,
      5 \<mapsto> \<lparr>buf = Vec [3], grad = Some (Vec [4])\<rparr>,
      6 \<mapsto> \<lparr>buf = Vec [7], grad = None\<rparr>)"

text \<open>
  The layers on matrices as lists of rows: \<open>X \<cdot> W + b\<close> with the bias added to every row,
  the rectifier on every entry, the softmax of the notebook, and their composition.
\<close>

definition affine :: "'a arith \<Rightarrow> 'a list list \<Rightarrow> 'a list list \<Rightarrow> 'a list \<Rightarrow> 'a list list" where
  "affine A X W c = map (\<lambda>r. map2 (fadd A) (map (dot_row A r W) [0..<ncols W]) c) X"

definition relu_rows :: "'a arith \<Rightarrow> 'a list list \<Rightarrow> 'a list list" where
  "relu_rows A H = map (map (\<lambda>x. fmax A x (lit A 0))) H"

definition softmax_rows :: "'a arith \<Rightarrow> 'a list list \<Rightarrow> 'a list list" where
  "softmax_rows A Y = map (softmax_row A (global_max A Y)) Y"

definition mlp ::
  "'a arith \<Rightarrow> 'a list list \<Rightarrow> 'a list \<Rightarrow> 'a list list \<Rightarrow> 'a list \<Rightarrow> 'a list list \<Rightarrow> 'a list
     \<Rightarrow> 'a list list \<Rightarrow> 'a list list" where
  "mlp A w1 c1 w2 c2 w3 c3 X =
     softmax_rows A
       (affine A (relu_rows A (affine A (relu_rows A (affine A X w1 c1)) w2 c2)) w3 c3)"

text \<open>
  The parameter values in the store, with the shapes the notebook creates them with:
  \<open>W1\<close> (784,256), \<open>b1\<close> (256), \<open>W2\<close> (256,128), \<open>b2\<close> (128), \<open>W3\<close> (128,10), \<open>b3\<close> (10).
\<close>

definition has_params ::
  "'a store \<Rightarrow> 'a list list \<Rightarrow> 'a list \<Rightarrow> 'a list list \<Rightarrow> 'a list \<Rightarrow> 'a list list \<Rightarrow> 'a list \<Rightarrow> bool" where
  "has_params \<sigma> w1 c1 w2 c2 w3 c3 =
     (lookup \<sigma> W1 = Some (Mat w1) \<and> is_mat 784 256 w1
      \<and> lookup \<sigma> b1 = Some (Vec c1) \<and> length c1 = 256
      \<and> lookup \<sigma> W2 = Some (Mat w2) \<and> is_mat 256 128 w2
      \<and> lookup \<sigma> b2 = Some (Vec c2) \<and> length c2 = 128
      \<and> lookup \<sigma> W3 = Some (Mat w3) \<and> is_mat 128 10 w3
      \<and> lookup \<sigma> b3 = Some (Vec c3) \<and> length c3 = 10)"

text \<open>A store with all parameters and gradients zero.\<close>

definition zero_store :: "real store" where
  "zero_store = Map.empty
     (W1 \<mapsto> \<lparr>buf = Mat (replicate 784 (replicate 256 0)),
              grad = Some (Mat (replicate 784 (replicate 256 0)))\<rparr>,
      b1 \<mapsto> \<lparr>buf = Vec (replicate 256 0), grad = Some (Vec (replicate 256 0))\<rparr>,
      W2 \<mapsto> \<lparr>buf = Mat (replicate 256 (replicate 128 0)),
              grad = Some (Mat (replicate 256 (replicate 128 0)))\<rparr>,
      b2 \<mapsto> \<lparr>buf = Vec (replicate 128 0), grad = Some (Vec (replicate 128 0))\<rparr>,
      W3 \<mapsto> \<lparr>buf = Mat (replicate 128 (replicate 10 0)),
              grad = Some (Mat (replicate 128 (replicate 10 0)))\<rparr>,
      b3 \<mapsto> \<lparr>buf = Vec (replicate 10 0), grad = Some (Vec (replicate 10 0))\<rparr>)"

text \<open>
  What one call of \<open>evaluate_accuracy\<close> adds to the two counters of the metric: the counters
  a fresh metric has after the same batches.
\<close>

definition count_batch ::
  "'a arith \<Rightarrow> ('a ndarray \<Rightarrow> 'a ndarray option) \<Rightarrow> 'a batch \<Rightarrow> (nat \<times> nat) option" where
  "count_batch A net_fn batch = do {
     data \<leftarrow> reshape_rows 784 (bdata batch);
     output \<leftarrow> net_fn data;
     m \<leftarrow> metric_update A Accuracy (blabel batch) output;
     Some (sum_metric m, num_inst m)
   }"

fun count_all ::
  "'a arith \<Rightarrow> ('a ndarray \<Rightarrow> 'a ndarray option) \<Rightarrow> 'a batch list \<Rightarrow> (nat \<times> nat) option" where
  "count_all A net_fn [] = Some (0, 0)"
| "count_all A net_fn (batch # rest) = do {
     (h, n) \<leftarrow> count_batch A net_fn batch;
     (h', n') \<leftarrow> count_all A net_fn rest;
     Some (h + h', n + n')
   }"

definition add_counts :: "metric \<Rightarrow> nat \<times> nat \<Rightarrow> metric" where
  "add_counts m c = \<lparr>sum_metric = sum_metric m + fst c, num_inst = num_inst m + snd c\<rparr>"

text \<open>
  Example data for the store of zeros, whose network predicts class 0 for every image: one
  image, once labelled 0 and once labelled 1.
\<close>

definition image0 :: "real ndarray" where
  "image0 = Mat [replicate 784 0]"

definition hit_batch :: "real batch" where
  "hit_batch = \<lparr>bdata = image0, blabel = Vec [0]\<rparr>"

definition miss_batch :: "real batch" where
  "miss_batch = \<lparr>bdata = image0, blabel = Vec [1]\<rparr>"

text \<open>
  The store after the first cells of the notebook: the six parameters have the shapes they
  are created with and a gradient buffer each.
\<close>

definition has_shape :: "'a store \<Rightarrow> addr \<Rightarrow> nat list \<Rightarrow> bool" where
  "has_shape \<sigma> a s = (case \<sigma> a of None \<Rightarrow> False | Some t \<Rightarrow> attached t \<and> shape (buf t) = s)"

definition initialised :: "'a store \<Rightarrow> bool" where
  "initialised \<sigma> =
     (has_shape \<sigma> W1 [784, 256] \<and> has_shape \<sigma> b1 [256]
      \<and> has_shape \<sigma> W2 [256, 128] \<and> has_shape \<sigma> b2 [128]
      \<and> has_shape \<sigma> W3 [128, 10] \<and> has_shape \<sigma> b3 [10])"

text \<open>
  A batch of \<open>n > 0\<close> images of 784 pixels with one label each, as the MNIST iterators
  yield them.
\<close>

definition wf_batch :: "'a batch \<Rightarrow> bool" where
  "wf_batch batch =
     (case blabel batch of
        Vec l \<Rightarrow> l \<noteq> [] \<and> length (flat (bdata batch)) = length l * 784
      | Mat m \<Rightarrow> False)"

text \<open>The differentiation engine returns, for a parameter, a gradient of the parameter's shape.\<close>

definition grad_ok :: "'a autograd \<Rightarrow> bool" where
  "grad_ok G =
     (\<forall>\<sigma> data y a t. \<sigma> a = Some t \<longrightarrow> wf_nd (buf t) \<longrightarrow>
        wf_nd (G \<sigma> data y a) \<and> shape (G \<sigma> data y a) = shape (buf t))"

text \<open>
  The moving average in the words of the specification: 0.99 times the previous value plus
  0.01 times the current one. The loop does not use this definition.
\<close>

definition ema_step :: "'a arith \<Rightarrow> 'a \<Rightarrow> 'a \<Rightarrow> 'a" where
  "ema_step A previous current =
     fadd A (fmul A (lit A (99 / 100)) previous) (fmul A (lit A (1 / 100)) current)"

text \<open>
  Element 0 of a loss vector; the list of these elements over the batches of one epoch, each
  loss computed with the parameters the earlier batches of the epoch left.
\<close>

definition element0 :: "'a ndarray \<Rightarrow> 'a option" where
  "element0 X = (case X of Vec (x # xs) \<Rightarrow> Some x | _ \<Rightarrow> None)"

fun first_sample_losses ::
  "'a arith \<Rightarrow> 'a autograd \<Rightarrow> 'a store \<Rightarrow> 'a batch list \<Rightarrow> 'a list option" where
  "first_sample_losses A G \<sigma> [] = Some []"
| "first_sample_losses A G \<sigma> (batch # rest) = do {
     (\<sigma>', loss) \<leftarrow> train_batch A G \<sigma> batch;
     l \<leftarrow> element0 loss;
     ls \<leftarrow> first_sample_losses A G \<sigma>' rest;
     Some (l # ls)
   }"

text \<open>
  One parameter update, \<open>loss.backward()\<close> and \<open>SGD(params, .01)\<close>, written without the
  loss value; and the updates for a list of batches, one after the other.
\<close>

definition update_once :: "'a arith \<Rightarrow> 'a autograd \<Rightarrow> 'a store \<Rightarrow> 'a batch \<Rightarrow> 'a store option" where
  "update_once A G \<sigma> batch = do {
     data \<leftarrow> reshape_rows 784 (bdata batch);
     SGD A params (1 / 100) (backward G \<sigma> data (nd_one_hot A (blabel batch) 10))
   }"

fun updates :: "'a arith \<Rightarrow> 'a autograd \<Rightarrow> 'a batch list \<Rightarrow> 'a store \<Rightarrow> 'a store option" where
  "updates A G [] \<sigma> = Some \<sigma>"
| "updates A G (batch # rest) \<sigma> = do {
     \<sigma>' \<leftarrow> update_once A G \<sigma> batch;
     updates A G rest \<sigma>'
   }"

text \<open>An engine that returns zero gradients, for the examples.\<close>

definition zero_grad :: "real autograd" where
  "zero_grad \<sigma> data y a =
     (case \<sigma> a of None \<Rightarrow> Vec [0] | Some t \<Rightarrow> nd_zeros_like real_arith (buf t))"

text \<open>
  An arithmetic with a not-a-number: the reals and one value \<open>NaN\<close> that every operation
  passes on and that is smaller than nothing; the logarithm of a number that is not positive
  and a division by zero are \<open>NaN\<close> too. With it, a store whose last bias is \<open>NaN\<close>, an
  engine that returns \<open>NaN\<close> gradients and a batch of one image.
\<close>

fun lift1 :: "(real \<Rightarrow> real) \<Rightarrow> pyfloat \<Rightarrow> pyfloat" where
  "lift1 f (Float x) = Float (f x)"
| "lift1 f NaN = NaN"

fun lift2 :: "(real \<Rightarrow> real \<Rightarrow> real) \<Rightarrow> pyfloat \<Rightarrow> pyfloat \<Rightarrow> pyfloat" where
  "lift2 f (Float x) (Float y) = Float (f x y)"
| "lift2 f _ _ = NaN"

definition nan_arith :: "pyfloat arith" where
  "nan_arith = \<lparr>lit = Float, fadd = lift2 (+), fsub = lift2 (-), fmul = lift2 (*),
     fdiv = (\<lambda>a b. if b = Float 0 then NaN else lift2 (/) a b),
     fneg = lift1 uminus, fexp = lift1 exp,
     flog = (\<lambda>a. case a of Float x \<Rightarrow> if 0 < x then Float (ln x) else NaN | NaN \<Rightarrow> NaN),
     fmax = lift2 max,
     fless = (\<lambda>a b. case (a, b) of (Float x, Float y) \<Rightarrow> x < y | _ \<Rightarrow> False),
     to_int = (\<lambda>a. case a of Float x \<Rightarrow> (if 0 \<le> x then \<lfloor>x\<rfloor> else \<lceil>x\<rceil>) | NaN \<Rightarrow> 0)\<rparr>"





text \<open>
  Non-negative numbers of \<open>pyfloat\<close>; \<open>NaN\<close> is not one of them.
\<close>

fun nonneg :: "pyfloat \<Rightarrow> bool" where
  "nonneg (Float x) = (0 \<le> x)"
| "nonneg NaN = False"

text \<open>
  The arithmetic with \<open>NaN\<close> in which, as in single precision, the exponential of a number
  at or below -104 is zero (\<open>exp(-104)\<close> is less than half of the smallest positive
  single-precision number).
\<close>

definition underflow_arith :: "pyfloat arith" where
  "underflow_arith = nan_arith\<lparr>fexp :=
     (\<lambda>a. case a of Float x \<Rightarrow> Float (if x \<le> - 104 then 0 else exp x) | NaN \<Rightarrow> NaN)\<rparr>"

text \<open>
  The store of zeros with the last bias \<open>(ln 9, 0, ..., 0)\<close>: its network predicts class 0 with
  probability 1/2 and every other class with probability 1/18, whatever the image.
\<close>

definition biased_store :: "real store" where
  "biased_store = zero_store
     (b3 \<mapsto> \<lparr>buf = Vec (ln 9 # replicate 9 0), grad = Some (Vec (replicate 10 0))\<rparr>)"

definition biased :: "real store \<Rightarrow> bool" where
  "biased \<sigma> = (lookup \<sigma> W3 = Some (Mat (replicate 128 (replicate 10 0)))
                \<and> lookup \<sigma> b3 = Some (Vec (ln 9 # replicate 9 0)))"

section \<open>Shapes and broadcasting\<close>

lemma stretch_same: "length xs = n \<Longrightarrow> stretch n xs = xs"
  by (auto simp: stretch_def split: list.splits)

lemma stretch_single: "stretch n [x] = replicate n x"
  by (simp add: stretch_def)

lemma bdim_same: "bdim n n = Some n"
  by (simp add: bdim_def)

lemma bdim_one_right: "bdim n (Suc 0) = Some n"
  by (simp add: bdim_def)

lemma is_mat_ncols: "is_mat n k m \<Longrightarrow> m \<noteq> [] \<Longrightarrow> ncols m = k"
  by (cases m) (auto simp: is_mat_def ncols_def)

lemma is_mat_row: "is_mat n k m \<Longrightarrow> r \<in> set m \<Longrightarrow> length r = k"
  by (auto simp: is_mat_def list_all_iff)

lemma map_stretch_rows: "is_mat n k m \<Longrightarrow> map (stretch k) m = m"
  by (rule map_idI) (simp add: is_mat_row stretch_same)

lemma broadcast_same_mat:
  assumes "is_mat n k a" "is_mat n k b"
  shows "broadcast_op f (Mat a) (Mat b) = Some (Mat (map2 (map2 f) a b))"
proof -
  have c: "ncols a = ncols b"
    using assms by (cases a; cases b) (auto simp: is_mat_def ncols_def)
  have l: "length a = n" "length b = n" using assms by (simp_all add: is_mat_def)
  have "is_mat n (ncols a) a" "is_mat n (ncols b) b"
    using assms by (cases a; cases b; simp add: is_mat_def ncols_def)+
  then have "map (stretch (ncols a)) a = a" "map (stretch (ncols a)) b = b"
    using c by (simp_all add: map_stretch_rows)
  then show ?thesis
    using c l by (simp add: broadcast_op_def bdim_same stretch_same)
qed

lemma broadcast_same_vec:
  "length u = length v \<Longrightarrow> broadcast_op f (Vec u) (Vec v) = Some (Vec (map2 f u v))"
  by (simp add: broadcast_op_def bdim_same ncols_def stretch_same stretch_single)

lemma map2_replicate_right:
  "length xs = n \<Longrightarrow> map2 f xs (replicate n y) = map (\<lambda>x. f x y) xs"
  by (induction xs arbitrary: n) auto

lemma map2_replicate_left:
  "length ys = n \<Longrightarrow> map2 f (replicate n x) ys = map (f x) ys"
  by (induction ys arbitrary: n) auto

lemma is_mat_map: "is_mat n k (map (map f) m) = is_mat n k m"
  by (simp add: is_mat_def list_all_iff)

lemma ncols_map: "ncols (map (map f) m) = ncols m"
  by (cases m) (simp_all add: ncols_def)

lemma shape_map_nd: "shape (map_nd f X) = shape X"
  by (cases X) (simp_all add: ncols_map)

lemma wf_map_nd: "wf_nd (map_nd f X) = wf_nd X"
  by (cases X) (simp_all add: ncols_map is_mat_map)

lemma broadcast_mat_rowvec:
  assumes "is_mat n k a" "0 < n" "length v = k"
  shows "broadcast_op f (Mat a) (Vec v) = Some (Mat (map (\<lambda>r. map2 f r v) a))"
proof -
  have ne: "a \<noteq> []" using assms by (auto simp: is_mat_def)
  have c: "ncols a = k" using assms ne by (simp add: is_mat_ncols)
  have l: "length a = n" using assms by (simp add: is_mat_def)
  have s: "map (stretch k) a = a" using assms by (simp add: map_stretch_rows)
  show ?thesis
    using c l s assms(3)
    by (simp add: broadcast_op_def bdim_same bdim_one_right ncols_def[of "[v]"] stretch_same
        stretch_single map2_replicate_right)
qed

lemma broadcast_mat_scalar:
  assumes "is_mat n k a" "0 < n"
  shows "broadcast_op f (Mat a) (Vec [c]) = Some (Mat (map (map (\<lambda>x. f x c)) a))"
proof -
  have ne: "a \<noteq> []" using assms by (auto simp: is_mat_def)
  have c: "ncols a = k" using assms ne by (simp add: is_mat_ncols)
  have l: "length a = n" using assms by (simp add: is_mat_def)
  have s: "map (stretch k) a = a" using assms by (simp add: map_stretch_rows)
  have "map2 (map2 f) a (replicate n (replicate k c)) = map (\<lambda>r. map2 f r (replicate k c)) a"
    using l by (simp add: map2_replicate_right)
  also have "\<dots> = map (map (\<lambda>x. f x c)) a"
    by (rule map_cong) (use assms in \<open>simp_all add: map2_replicate_right is_mat_row\<close>)
  finally show ?thesis
    using c l s
    by (simp add: broadcast_op_def bdim_one_right ncols_def[of "[[c]]"] stretch_same stretch_single)
qed

lemma broadcast_mat_col:
  assumes "is_mat n k a" "0 < n" "length ss = n"
  shows "broadcast_op f (Mat a) (Mat (map (\<lambda>s. [s]) ss))
         = Some (Mat (map2 (\<lambda>r s. map (\<lambda>x. f x s) r) a ss))"
proof -
  have ne: "a \<noteq> []" "ss \<noteq> []" using assms by (auto simp: is_mat_def)
  have c: "ncols a = k" using assms ne by (simp add: is_mat_ncols)
  have c2: "ncols (map (\<lambda>s. [s]) ss) = 1" using ne by (cases ss) (simp_all add: ncols_def)
  have l: "length a = n" using assms by (simp add: is_mat_def)
  have s: "map (stretch k) a = a" using assms by (simp add: map_stretch_rows)
  have "map2 (map2 f) a (map (\<lambda>s. replicate k s) ss) = map2 (\<lambda>r s. map (\<lambda>x. f x s) r) a ss"
    unfolding zip_map2 map_map
    by (rule map_cong) (use assms in \<open>auto simp: map2_replicate_right is_mat_row dest: set_zip_leftD\<close>)
  then show ?thesis
    using c c2 l s assms(3)
    by (simp add: broadcast_op_def bdim_same bdim_one_right stretch_same stretch_single comp_def)
qed

lemma broadcast_same_shape:
  assumes "wf_nd a" "wf_nd b" "shape a = shape b"
  shows "broadcast_op f a b = Some (zip_nd f a b)"
proof (cases a)
  case (Vec u)
  then show ?thesis using assms by (cases b) (simp_all add: broadcast_same_vec)
next
  case (Mat m)
  then show ?thesis using assms
    by (cases b) (simp_all add: broadcast_same_mat[of "length m" "ncols m"])
qed

lemma relu_eq:
  assumes "wf_nd X"
  shows "relu A X = Some (map_nd (\<lambda>x. fmax A x (lit A 0)) X)"
proof -
  have "relu A X = Some (zip_nd (fmax A) X (map_nd (\<lambda>_. lit A 0) X))"
    unfolding relu_def nd_maximum_def nd_zeros_like_def
    by (rule broadcast_same_shape) (use assms in \<open>simp_all add: wf_map_nd shape_map_nd\<close>)
  also have "zip_nd (fmax A) X (map_nd (\<lambda>_. lit A 0) X) = map_nd (\<lambda>x. fmax A x (lit A 0)) X"
    by (cases X) (simp_all add: zip_map2 zip_same_conv_map comp_def)
  finally show ?thesis .
qed

section \<open>The activation function\<close>

lemma relu_nan_eq:
  "wf_nd X \<Longrightarrow> relu nan_arith X = Some (map_nd (\<lambda>x. lift2 max x (Float 0)) X)"
  using relu_eq[of X nan_arith] by (simp add: nan_arith_def)

lemma relu_entry: "lift2 max x (Float 0) = NaN \<or> nonneg (lift2 max x (Float 0))"
  by (cases x) simp_all

lemma relu_entry_nan: "(lift2 max x (Float 0) = NaN) = (x = NaN)"
  by (cases x) simp_all

lemma relu_entry_idem: "lift2 max (lift2 max x (Float 0)) (Float 0) = lift2 max x (Float 0)"
  by (cases x) simp_all

lemma map_nd_flat: "flat (map_nd f X) = map f (flat X)"
  by (cases X) (simp_all add: map_concat)

lemma map_nd_comp: "map_nd f (map_nd g X) = map_nd (\<lambda>x. f (g x)) X"
  by (cases X) (simp_all add: comp_def)

text \<open>
  Claim C10, amended. \<open>relu\<close> returns the elementwise maximum of \<open>X\<close> and a zero tensor of
  the same shape: for every tensor \<open>X\<close> the result has the shape of \<open>X\<close>, applying \<open>relu\<close> to
  it returns it unchanged, and every entry of it is non-negative or \<open>NaN\<close>, \<open>NaN\<close> exactly
  where \<open>X\<close> is; so for every tensor without \<open>NaN\<close> entries every entry of \<open>relu(X)\<close> is
  non-negative.
\<close>

theorem relu_max_zero_idempotent:
  assumes "wf_nd X"
  shows "\<exists>Y. relu nan_arith X = Some Y \<and> Y = map_nd (\<lambda>x. lift2 max x (Float 0)) X
           \<and> shape Y = shape X
           \<and> list_all (\<lambda>y. y = NaN \<or> nonneg y) (flat Y)
           \<and> (NaN \<notin> set (flat X) \<longrightarrow> list_all nonneg (flat Y))
           \<and> relu nan_arith Y = Some Y"
proof -
  let ?Y = "map_nd (\<lambda>x. lift2 max x (Float 0)) X"
  have 1: "relu nan_arith X = Some ?Y"
    using assms by (rule relu_nan_eq)
  have 2: "shape ?Y = shape X"
    by (rule shape_map_nd)
  have 3: "list_all (\<lambda>y. y = NaN \<or> nonneg y) (flat ?Y)"
    by (simp add: map_nd_flat list_all_iff relu_entry)
  have 4: "list_all nonneg (flat ?Y)" if "NaN \<notin> set (flat X)"
    unfolding map_nd_flat list_all_iff
  proof
    fix y assume "y \<in> set (map (\<lambda>x. lift2 max x (Float 0)) (flat X))"
    then obtain x where x: "x \<in> set (flat X)" "y = lift2 max x (Float 0)" by auto
    then have "x \<noteq> NaN" using that by auto
    then show "nonneg y" using x(2) relu_entry[of x] relu_entry_nan[of x] by auto
  qed
  have "wf_nd ?Y"
    using assms by (simp add: wf_map_nd)
  then have "relu nan_arith ?Y = Some (map_nd (\<lambda>x. lift2 max x (Float 0)) ?Y)"
    by (rule relu_nan_eq)
  also have "map_nd (\<lambda>x. lift2 max x (Float 0)) ?Y = ?Y"
    by (simp add: map_nd_comp relu_entry_idem)
  finally have 5: "relu nan_arith ?Y = Some ?Y" .
  from 1 2 3 4 5 show ?thesis by blast
qed

theorem relu_max_zero_idempotent_witness:
  "wf_nd (Mat [[Float 1, Float (- 2)], [NaN, Float 4]])
   \<and> relu nan_arith (Mat [[Float 1, Float (- 2)], [NaN, Float 4]])
       = Some (Mat [[Float 1, Float 0], [NaN, Float 4]])
   \<and> relu nan_arith (Mat [[Float 1, Float 0], [NaN, Float 4]])
       = Some (Mat [[Float 1, Float 0], [NaN, Float 4]])
   \<and> list_all (\<lambda>y. y = NaN \<or> nonneg y) [Float 1, Float 0, NaN, Float 4]
   \<and> NaN \<notin> set (flat (Mat [[Float 3, Float (- 1)]]))
   \<and> relu nan_arith (Mat [[Float 3, Float (- 1)]]) = Some (Mat [[Float 3, Float 0]])
   \<and> list_all nonneg [Float 3, Float 0]"
  using relu_max_zero_idempotent[of "Mat [[Float 1, Float (- 2)], [NaN, Float 4]]"]
    relu_max_zero_idempotent[of "Mat [[Float 3, Float (- 1)]]"]
  by (simp add: ncols_def is_mat_def)

text \<open>
  The claim as written fails on a tensor with a \<open>NaN\<close> entry, which the maximum passes on:
  \<open>relu([nan, 1, -1]) = [nan, 1, 0]\<close>, and \<open>NaN\<close> is not a non-negative number.
\<close>

theorem relu_nan_entry_counterexample:
  "wf_nd (Vec [NaN, Float 1, Float (- 1)])
   \<and> relu nan_arith (Vec [NaN, Float 1, Float (- 1)]) = Some (Vec [NaN, Float 1, Float 0])
   \<and> \<not> nonneg NaN"
  by (simp add: relu_nan_eq)

section \<open>Softmax\<close>

lemma wf_mat_concat: "wf_nd (Mat y) \<Longrightarrow> concat y \<noteq> []"
  by (cases y) (auto simp: ncols_def is_mat_def)

lemma nd_max_mat: "wf_nd (Mat y) \<Longrightarrow> nd_max A (Mat y) = Some (Vec [global_max A y])"
  using wf_mat_concat[of y] by (simp add: nd_max_def global_max_def split: list.splits)

lemma map2_map_map: "map2 f (map g xs) (map h xs) = map (\<lambda>x. f (g x) (h x)) xs"
  by (induction xs) auto

lemma softmax_eq:
  assumes "wf_nd (Mat y)"
  shows "softmax A (Mat y) = Some (Mat (map (softmax_row A (global_max A y)) y))"
proof -
  let ?m = "global_max A y" and ?n = "length y" and ?k = "ncols y"
  let ?E = "map (map (\<lambda>x. fexp A (fsub A x ?m))) y"
  have m: "is_mat ?n ?k y" and n: "0 < ?n" using assms by simp_all
  have 1: "nd_sub A (Mat y) (Vec [?m]) = Some (Mat (map (map (\<lambda>x. fsub A x ?m)) y))"
    unfolding nd_sub_def using m n by (rule broadcast_mat_scalar)
  have E: "is_mat ?n ?k ?E" using m by (simp add: is_mat_map)
  have 2: "nd_div A (Mat ?E) (Mat (map (\<lambda>s. [s]) (map (fsum A) ?E)))
           = Some (Mat (map2 (\<lambda>r s. map (\<lambda>x. fdiv A x s) r) ?E (map (fsum A) ?E)))"
    unfolding nd_div_def using E n by (rule broadcast_mat_col) simp
  have 3: "map2 (\<lambda>r s. map (\<lambda>x. fdiv A x s) r) ?E (map (fsum A) ?E)
           = map (softmax_row A ?m) y"
    by (simp add: map2_map_map softmax_row_def Let_def)
  show ?thesis
    using 2 unfolding 3
    by (simp add: softmax_def nd_max_mat[OF assms] 1 nd_exp_def reshape_col_def comp_def)
qed

lemma foldl_add_real: "foldl (+) a xs = a + sum_list (xs::real list)"
  by (induction xs arbitrary: a) auto

lemma fsum_real: "fsum real_arith xs = sum_list xs"
  by (simp add: fsum_def real_arith_def foldl_add_real)

lemma sum_list_divide: "sum_list (map (\<lambda>x. f x / c) xs) = sum_list (map f xs) / (c::real)"
  by (induction xs) (auto simp: add_divide_distrib)

lemma sum_list_exp_pos: "xs \<noteq> [] \<Longrightarrow> 0 < sum_list (map (\<lambda>x. exp (g x)) xs :: real list)"
  by (cases xs) (auto intro!: add_pos_nonneg sum_list_nonneg)

lemma softmax_row_real:
  "softmax_row real_arith m r = map (\<lambda>x. exp (x - m) / sum_list (map (\<lambda>x. exp (x - m)) r)) r"
  by (simp add: softmax_row_def fsum_real Let_def comp_def) (simp add: real_arith_def)

lemma softmax_row_shift:
  "softmax_row real_arith m r = map (\<lambda>x. exp x / sum_list (map exp r)) r"
proof -
  have "sum_list (map (\<lambda>x. exp (x - m)) r) = sum_list (map exp r) / exp m"
    by (simp add: exp_diff sum_list_divide)
  then show ?thesis
    by (simp add: softmax_row_real exp_diff)
qed

lemma softmax_real_unshifted:
  "wf_nd (Mat y) \<Longrightarrow> softmax real_arith (Mat y) = Some (Mat (unshifted_softmax y))"
  by (simp add: softmax_eq unshifted_softmax_def softmax_row_shift[abs_def])

lemma unshifted_row_sum:
  assumes "r \<noteq> []"
  shows "sum_list (map (\<lambda>x. exp x / sum_list (map exp r)) r) = (1::real)"
proof -
  have "0 < sum_list (map (\<lambda>x. exp x) r :: real list)" using assms by (rule sum_list_exp_pos)
  then show ?thesis by (simp add: sum_list_divide)
qed

lemma unshifted_row_nonneg:
  "x \<in> set r \<Longrightarrow> 0 \<le> exp x / sum_list (map exp (r::real list))"
  by (intro divide_nonneg_nonneg sum_list_nonneg) auto

text \<open>
  In exact real arithmetic the rows of the result are probability distributions: no entry is
  negative and every row sums to one.
\<close>

lemma softmax_real_rows_are_distributions:
  assumes "wf_nd (Mat y_linear)"
  shows "\<exists>P. softmax real_arith (Mat y_linear) = Some (Mat P)
           \<and> is_mat (length y_linear) (ncols y_linear) P
           \<and> list_all (\<lambda>r. list_all (\<lambda>p. 0 \<le> p) r \<and> sum_list r = 1) P"
proof -
  let ?P = "unshifted_softmax y_linear"
  have 1: "softmax real_arith (Mat y_linear) = Some (Mat ?P)"
    using assms by (rule softmax_real_unshifted)
  have m: "is_mat (length y_linear) (ncols y_linear) y_linear" and c: "ncols y_linear \<noteq> 0"
    using assms by simp_all
  have 2: "is_mat (length y_linear) (ncols y_linear) ?P"
    using m by (simp add: unshifted_softmax_def is_mat_def list_all_iff)
  have ne: "r \<noteq> []" if "r \<in> set y_linear" for r
    using is_mat_row[OF m that] c by auto
  have 3: "list_all (\<lambda>r. list_all (\<lambda>p. 0 \<le> p) r \<and> sum_list r = 1) ?P"
    unfolding unshifted_softmax_def list_all_iff
    by (auto simp: unshifted_row_sum ne comp_def intro: unshifted_row_nonneg)
  from 1 2 3 show ?thesis by blast
qed

lemma underflow_ops:
  "lit underflow_arith = Float" "fadd underflow_arith = lift2 (+)"
  "fsub underflow_arith = lift2 (-)" "fmax underflow_arith = lift2 max"
  "fdiv underflow_arith = (\<lambda>a b. if b = Float 0 then NaN else lift2 (/) a b)"
  "fexp underflow_arith (Float x) = Float (if x \<le> - 104 then 0 else exp x)"
  by (simp_all add: underflow_arith_def nan_arith_def)

text \<open>
  Claim C2. The notebook introduces \<open>softmax\<close> "to make sure that our outputs sum to one and
  are non-negative", and the code does not: it subtracts the largest entry of the whole matrix,
  not of each row, so in single precision every exponential of a row that lies 104 or more
  below that entry underflows to zero and the row becomes 0/0. On \<open>[[0, 0], [200, 200]]\<close> it
  returns \<open>[[nan, nan], [0.5, 0.5]]\<close>; shifted by its own maximum, the first row is
  \<open>[0.5, 0.5]\<close>.
\<close>

theorem softmax_underflow_nan_row:
  "softmax underflow_arith (Mat [[Float 0, Float 0], [Float 200, Float 200]])
     = Some (Mat [[NaN, NaN], [Float (1 / 2), Float (1 / 2)]])
   \<and> softmax_row underflow_arith (Float 0) [Float 0, Float 0] = [Float (1 / 2), Float (1 / 2)]"
proof -
  have w: "wf_nd (Mat [[Float 0, Float 0], [Float 200, Float 200]])"
    by (simp add: ncols_def is_mat_def)
  have "softmax underflow_arith (Mat [[Float 0, Float 0], [Float 200, Float 200]])
     = Some (Mat [[NaN, NaN], [Float (1 / 2), Float (1 / 2)]])"
    unfolding softmax_eq[OF w]
    by (simp add: global_max_def softmax_row_def fsum_def underflow_ops)
  moreover have "softmax_row underflow_arith (Float 0) [Float 0, Float 0]
     = [Float (1 / 2), Float (1 / 2)]"
    by (simp add: softmax_row_def fsum_def underflow_ops)
  ultimately show ?thesis by blast
qed




section \<open>Cross-entropy\<close>

lemma cross_entropy_eq:
  assumes "is_mat n k yhat" "is_mat n k y"
  shows "cross_entropy A (Mat yhat) (Mat y) = Some (Vec (map2 (ce_row A) y yhat))"
proof -
  have "nd_mul A (Mat y) (Mat (map (map (flog A)) yhat))
        = Some (Mat (map2 (map2 (fmul A)) y (map (map (flog A)) yhat)))"
    unfolding nd_mul_def using assms by (intro broadcast_same_mat[of n k]) (simp_all add: is_mat_map)
  then show ?thesis
    by (simp add: cross_entropy_def nd_log_def nd_neg_def ce_row_def zip_map2
        comp_def case_prod_unfold)
qed

lemma sum_list_map2_nth:
  "length xs = length ys \<Longrightarrow>
   sum_list (map2 f xs ys) = (\<Sum>j<length xs. (f (xs ! j) (ys ! j) :: real))"
  by (simp add: sum_list_sum_nth atLeast0LessThan)

lemma ce_row_real:
  "length t = length p \<Longrightarrow>
   ce_row real_arith t p = - (\<Sum>j<length p. t ! j * ln (p ! j))"
  by (simp add: ce_row_def fsum_real sum_list_map2_nth) (simp add: real_arith_def)

lemma ce_row_one_hot:
  assumes "length p = k" "c < k"
  shows "ce_row real_arith (one_hot_row k c) p = - ln (p ! c)"
proof -
  have "ce_row real_arith (one_hot_row k c) p = - (\<Sum>j<k. one_hot_row k c ! j * ln (p ! j))"
    using assms by (simp add: ce_row_real one_hot_row_def)
  also have "(\<Sum>j<k. one_hot_row k c ! j * ln (p ! j)) = (\<Sum>j<k. if j = c then ln (p ! j) else 0)"
    by (rule sum.cong) (simp_all add: one_hot_row_def)
  also have "\<dots> = ln (p ! c)"
    using assms by simp
  finally show ?thesis .
qed

text \<open>
  Claim C3. For a prediction matrix with positive entries and a label matrix of the same shape,
  \<open>cross_entropy\<close> returns one number per row, minus the sum over the row of \<open>y * log(yhat)\<close>;
  where the label row is one-hot, that number is minus the logarithm of the probability
  predicted for the true class (exact real arithmetic).
\<close>

theorem cross_entropy_per_row:
  assumes "wf_nd (Mat yhat)" "wf_nd (Mat y)" "shape (Mat y) = shape (Mat yhat)"
    and "list_all (list_all (\<lambda>p. 0 < p)) yhat"
  shows "\<exists>loss. cross_entropy real_arith (Mat yhat) (Mat y) = Some (Vec loss)
           \<and> length loss = length yhat
           \<and> (\<forall>i<length yhat.
                 loss ! i = - (\<Sum>j<ncols yhat. y ! i ! j * ln (yhat ! i ! j))
                 \<and> (\<forall>c<ncols yhat. y ! i = one_hot_row (ncols yhat) c \<longrightarrow> loss ! i = - ln (yhat ! i ! c)))"
proof -
  let ?n = "length yhat" and ?k = "ncols yhat"
  let ?loss = "map2 (ce_row real_arith) y yhat"
  have m: "is_mat ?n ?k yhat" "is_mat ?n ?k y" using assms by simp_all
  have 1: "cross_entropy real_arith (Mat yhat) (Mat y) = Some (Vec ?loss)"
    using m by (rule cross_entropy_eq)
  have len: "length y = ?n" using m by (simp add: is_mat_def)
  have rows: "length (y ! i) = ?k" "length (yhat ! i) = ?k" if "i < ?n" for i
    using that m len by (simp_all add: is_mat_row)
  have 2: "?loss ! i = - (\<Sum>j<?k. y ! i ! j * ln (yhat ! i ! j))" if "i < ?n" for i
    using that len rows[OF that] by (simp add: ce_row_real)
  have 3: "?loss ! i = - ln (yhat ! i ! c)" if "i < ?n" "c < ?k" "y ! i = one_hot_row ?k c" for i c
    using that len rows[OF that(1)] by (simp add: ce_row_one_hot)
  from 1 2 3 len show ?thesis by auto
qed

theorem cross_entropy_per_row_witness:
  "wf_nd (Mat [[1 / 2, 1 / 2], [1 / 4, 3 / 4 :: real]]) \<and> wf_nd (Mat [[1, 0], [0, 1 :: real]])
   \<and> list_all (list_all (\<lambda>p. 0 < p)) [[1 / 2, 1 / 2], [1 / 4, 3 / 4 :: real]]
   \<and> (\<exists>loss. cross_entropy real_arith (Mat [[1 / 2, 1 / 2], [1 / 4, 3 / 4]]) (Mat [[1, 0], [0, 1]])
                = Some (Vec loss)
         \<and> length loss = 2 \<and> loss ! 0 = - ln (1 / 2) \<and> loss ! 1 = - ln (3 / 4))"
proof -
  let ?yhat = "[[1 / 2, 1 / 2], [1 / 4, 3 / 4 :: real]]" and ?y = "[[1, 0], [0, 1 :: real]]"
  have h: "wf_nd (Mat ?yhat)" "wf_nd (Mat ?y)" "shape (Mat ?y) = shape (Mat ?yhat)"
    "list_all (list_all (\<lambda>p. 0 < p)) ?yhat"
    by (simp_all add: ncols_def is_mat_def)
  have k: "ncols ?yhat = 2" "length ?yhat = 2" by (simp_all add: ncols_def)
  from cross_entropy_per_row[OF h] obtain loss where
    L: "cross_entropy real_arith (Mat ?yhat) (Mat ?y) = Some (Vec loss)" "length loss = 2"
    and R: "\<And>i c. i < 2 \<Longrightarrow> c < 2 \<Longrightarrow> ?y ! i = one_hot_row 2 c \<Longrightarrow> loss ! i = - ln (?yhat ! i ! c)"
    unfolding k by blast
  have oh: "?y ! 0 = one_hot_row 2 0" "?y ! 1 = one_hot_row 2 1"
    by (simp_all add: one_hot_row_def upt_rec)
  have "loss ! 0 = - ln (1 / 2)" using R[of 0 0] oh by simp
  moreover have "loss ! 1 = - ln (3 / 4)" using R[of 1 1] oh by simp
  ultimately show ?thesis using h L by blast
qed

section \<open>The optimizer\<close>

lemma is_mat_map2:
  "is_mat n k a \<Longrightarrow> is_mat n k b \<Longrightarrow> is_mat n k (map2 (map2 f) a b)"
proof -
  assume a: "is_mat n k a" and b: "is_mat n k b"
  have "length (map2 f x y) = k" if "(x, y) \<in> set (zip a b)" for x y
    using is_mat_row[OF a set_zip_leftD[OF that]] is_mat_row[OF b set_zip_rightD[OF that]]
    by simp
  then show ?thesis
    using a b by (auto simp: is_mat_def list_all_iff)
qed

lemma ncols_map2:
  "is_mat n k a \<Longrightarrow> is_mat n k b \<Longrightarrow> ncols (map2 (map2 f) a b) = ncols a"
  by (cases a; cases b) (auto simp: ncols_def is_mat_def)

lemma zip_nd_shape:
  assumes "wf_nd a" "wf_nd b" "shape a = shape b"
  shows "shape (zip_nd f a b) = shape a \<and> wf_nd (zip_nd f a b)"
proof (cases a)
  case (Vec u)
  then show ?thesis using assms by (cases b) auto
next
  case (Mat m)
  then obtain m' where b: "b = Mat m'" using assms by (cases b) auto
  have 1: "is_mat (length m) (ncols m) m" "is_mat (length m) (ncols m) m'"
    using assms Mat b by simp_all
  have "ncols (map2 (map2 f) m m') = ncols m" using 1 by (rule ncols_map2)
  moreover have "is_mat (length m) (ncols m) (map2 (map2 f) m m')" using 1 by (rule is_mat_map2)
  moreover have "length m' = length m" using 1 by (simp add: is_mat_def)
  ultimately show ?thesis using assms Mat b by simp
qed

lemma sgd_update:
  assumes "attached t" "grad t = Some g"
  shows "nd_sub A (buf t) (nd_scale A (lit A lr) g) = Some (descent A lr (buf t) g)"
    and "assign_all (buf t) (descent A lr (buf t) g) = Some (descent A lr (buf t) g)"
    and "attached (t\<lparr>buf := descent A lr (buf t) g\<rparr>)"
proof -
  let ?s = "map_nd (fmul A (lit A lr)) g"
  have w: "wf_nd (buf t)" "wf_nd ?s" "shape (buf t) = shape ?s"
    using assms by (simp_all add: attached_def wf_map_nd shape_map_nd)
  show "nd_sub A (buf t) (nd_scale A (lit A lr) g) = Some (descent A lr (buf t) g)"
    unfolding nd_sub_def nd_scale_def descent_def using w by (rule broadcast_same_shape)
  have z: "shape (descent A lr (buf t) g) = shape (buf t)" "wf_nd (descent A lr (buf t) g)"
    unfolding descent_def using zip_nd_shape[OF w] by simp_all
  show "assign_all (buf t) (descent A lr (buf t) g) = Some (descent A lr (buf t) g)"
    using z by (simp add: assign_all_def)
  show "attached (t\<lparr>buf := descent A lr (buf t) g\<rparr>)"
    using assms z by (simp add: attached_def)
qed

lemma SGD_Cons:
  assumes "\<sigma> p = Some t" "attached t" "grad t = Some g"
  shows "SGD A (p # ps) lr \<sigma> = SGD A ps lr (\<sigma>(p \<mapsto> t\<lparr>buf := descent A lr (buf t) g\<rparr>))"
  using assms sgd_update(1,2)[OF assms(2,3), of A lr] by simp

lemma attached_grad: "attached t \<Longrightarrow> \<exists>g. grad t = Some g"
  by (simp add: attached_def split: option.splits)

lemma SGD_distinct:
  assumes "distinct ps" "\<forall>p\<in>set ps. \<exists>t. \<sigma> p = Some t \<and> attached t"
  shows "\<exists>\<sigma>'. SGD A ps lr \<sigma> = Some \<sigma>'
           \<and> (\<forall>a. a \<notin> set ps \<longrightarrow> \<sigma>' a = \<sigma> a)
           \<and> (\<forall>p\<in>set ps. \<forall>t g. \<sigma> p = Some t \<longrightarrow> grad t = Some g \<longrightarrow>
                 \<sigma>' p = Some (t\<lparr>buf := descent A lr (buf t) g\<rparr>))"
  using assms
proof (induction ps arbitrary: \<sigma>)
  case Nil
  then show ?case by simp
next
  case (Cons p ps)
  from Cons.prems obtain t where t: "\<sigma> p = Some t" "attached t" by auto
  then obtain g where g: "grad t = Some g" using attached_grad by blast
  let ?\<sigma>1 = "\<sigma>(p \<mapsto> t\<lparr>buf := descent A lr (buf t) g\<rparr>)"
  have step: "SGD A (p # ps) lr \<sigma> = SGD A ps lr ?\<sigma>1"
    using t g by (rule SGD_Cons)
  have p: "p \<notin> set ps" and d: "distinct ps" using Cons.prems by simp_all
  have "\<forall>q\<in>set ps. \<exists>t. ?\<sigma>1 q = Some t \<and> attached t"
    using Cons.prems p by auto
  from Cons.IH[OF d this] obtain \<sigma>' where
    r: "SGD A ps lr ?\<sigma>1 = Some \<sigma>'" "\<And>a. a \<notin> set ps \<Longrightarrow> \<sigma>' a = ?\<sigma>1 a"
      "\<And>q t g. q \<in> set ps \<Longrightarrow> ?\<sigma>1 q = Some t \<Longrightarrow> grad t = Some g \<Longrightarrow>
         \<sigma>' q = Some (t\<lparr>buf := descent A lr (buf t) g\<rparr>)"
    by blast
  have "\<sigma>' p = Some (t\<lparr>buf := descent A lr (buf t) g\<rparr>)" using r(2)[OF p] by simp
  moreover have "\<sigma>' a = \<sigma> a" if "a \<notin> set (p # ps)" for a using r(2)[of a] that by simp
  moreover have "\<sigma>' q = Some (t'\<lparr>buf := descent A lr (buf t') g'\<rparr>)"
    if "q \<in> set ps" "\<sigma> q = Some t'" "grad t' = Some g'" for q t' g'
  proof -
    have "q \<noteq> p" using that(1) p by auto
    then show ?thesis using r(3)[of q t' g'] that by simp
  qed
  ultimately show ?case using step r(1) t g by auto
qed

lemma SGD_frame:
  assumes "\<forall>p\<in>set ps. \<exists>t. \<sigma> p = Some t \<and> attached t"
  shows "\<exists>\<sigma>'. SGD A ps lr \<sigma> = Some \<sigma>'
           \<and> dom \<sigma>' = dom \<sigma>
           \<and> (\<forall>a. a \<notin> set ps \<longrightarrow> \<sigma>' a = \<sigma> a)
           \<and> (\<forall>a t. \<sigma> a = Some t \<longrightarrow>
                 (\<exists>t'. \<sigma>' a = Some t' \<and> grad t' = grad t \<and> shape (buf t') = shape (buf t)
                       \<and> (attached t \<longrightarrow> attached t')))"
  using assms
proof (induction ps arbitrary: \<sigma>)
  case Nil
  then show ?case by simp
next
  case (Cons p ps)
  from Cons.prems obtain t where t: "\<sigma> p = Some t" "attached t" by auto
  then obtain g where g: "grad t = Some g" using attached_grad by blast
  let ?t1 = "t\<lparr>buf := descent A lr (buf t) g\<rparr>"
  let ?\<sigma>1 = "\<sigma>(p \<mapsto> ?t1)"
  have step: "SGD A (p # ps) lr \<sigma> = SGD A ps lr ?\<sigma>1"
    using t g by (rule SGD_Cons)
  have a1: "attached ?t1" using t(2) g by (rule sgd_update(3))
  have s1: "shape (buf ?t1) = shape (buf t)"
    using sgd_update(2)[OF t(2) g, of A lr] by (simp add: assign_all_def split: if_splits)
  have "\<forall>q\<in>set ps. \<exists>t. ?\<sigma>1 q = Some t \<and> attached t"
    using Cons.prems a1 by auto
  from Cons.IH[OF this] obtain \<sigma>' where
    r: "SGD A ps lr ?\<sigma>1 = Some \<sigma>'" "dom \<sigma>' = dom ?\<sigma>1"
      "\<And>a. a \<notin> set ps \<Longrightarrow> \<sigma>' a = ?\<sigma>1 a"
      "\<And>a t. ?\<sigma>1 a = Some t \<Longrightarrow>
         \<exists>t'. \<sigma>' a = Some t' \<and> grad t' = grad t \<and> shape (buf t') = shape (buf t)
              \<and> (attached t \<longrightarrow> attached t')"
    by blast
  have d: "dom \<sigma>' = dom \<sigma>" using r(2) t(1) by auto
  have f: "\<sigma>' a = \<sigma> a" if "a \<notin> set (p # ps)" for a using r(3)[of a] that by simp
  have k: "\<exists>t'. \<sigma>' a = Some t' \<and> grad t' = grad u \<and> shape (buf t') = shape (buf u)
              \<and> (attached u \<longrightarrow> attached t')" if "\<sigma> a = Some u" for a u
  proof (cases "a = p")
    case True
    then have "u = t" using that t(1) by simp
    then show ?thesis using r(4)[of p ?t1] True s1 a1 by auto
  next
    case False
    then show ?thesis using r(4)[of a u] that by simp
  qed
  show ?case using step r(1) d f k by auto
qed

lemmas globals_defs = params_def W1_def b1_def W2_def b2_def W3_def b3_def

lemma small_store_attached:
  "list_all (\<lambda>p. \<exists>t. small_store p = Some t \<and> attached t) params"
  by (simp add: globals_defs small_store_def attached_def ncols_def is_mat_def)

text \<open>
  Claim C4, amended. For every list of pairwise distinct parameters with attached gradients and
  every learning rate, \<open>SGD\<close> returns, each parameter holds its previous value minus \<open>lr\<close>
  times its gradient buffer, its gradient buffer is unchanged, and every object outside the
  list is unchanged. This holds for every arithmetic.
\<close>

theorem SGD_updates_each_parameter:
  assumes "distinct ps" and "\<forall>p\<in>set ps. \<exists>t. \<sigma> p = Some t \<and> attached t"
  shows "\<exists>\<sigma>'. SGD A ps lr \<sigma> = Some \<sigma>'
           \<and> (\<forall>a. a \<notin> set ps \<longrightarrow> \<sigma>' a = \<sigma> a)
           \<and> (\<forall>p\<in>set ps. \<forall>t g. \<sigma> p = Some t \<longrightarrow> grad t = Some g \<longrightarrow>
                 \<sigma>' p = Some (t\<lparr>buf := descent A lr (buf t) g\<rparr>))"
  using assms by (rule SGD_distinct)

theorem SGD_updates_each_parameter_witness:
  "distinct params
   \<and> list_all (\<lambda>p. \<exists>t. small_store p = Some t \<and> attached t) params
   \<and> (\<exists>\<sigma>'. SGD real_arith params (1 / 2) small_store = Some \<sigma>'
         \<and> lookup \<sigma>' W1 = Some (Mat [[1 / 2, 3 / 2]])
         \<and> lookup \<sigma>' b3 = Some (Vec [1])
         \<and> \<sigma>' 6 = small_store 6)"
proof -
  have d: "distinct params" by (simp add: globals_defs)
  have a: "\<forall>p\<in>set params. \<exists>t. small_store p = Some t \<and> attached t"
    using small_store_attached by (simp add: list_all_iff)
  from SGD_updates_each_parameter[OF d a, of real_arith "1 / 2"] obtain \<sigma>' where
    s: "SGD real_arith params (1 / 2) small_store = Some \<sigma>'"
    and f: "\<And>a. a \<notin> set params \<Longrightarrow> \<sigma>' a = small_store a"
    and u: "\<And>p t g. p \<in> set params \<Longrightarrow> small_store p = Some t \<Longrightarrow> grad t = Some g \<Longrightarrow>
               \<sigma>' p = Some (t\<lparr>buf := descent real_arith (1 / 2) (buf t) g\<rparr>)"
    by blast
  have "lookup \<sigma>' W1 = Some (Mat [[1 / 2, 3 / 2]])"
    using u[of W1 "\<lparr>buf = Mat [[1, 2]], grad = Some (Mat [[1, 1]])\<rparr>" "Mat [[1, 1]]"]
    by (simp add: globals_defs small_store_def lookup_def descent_def real_arith_def)
  moreover have "lookup \<sigma>' b3 = Some (Vec [1])"
    using u[of b3 "\<lparr>buf = Vec [3], grad = Some (Vec [4])\<rparr>" "Vec [4]"]
    by (simp add: globals_defs small_store_def lookup_def descent_def real_arith_def)
  moreover have "\<sigma>' 6 = small_store 6"
    using f[of 6] by (simp add: globals_defs)
  ultimately show ?thesis using d small_store_attached s by blast
qed

text \<open>
  Without distinctness the claim fails: \<open>SGD([W, W], 1)\<close> with \<open>W = [1]\<close> and
  \<open>W.grad = [1]\<close> updates \<open>W\<close> twice and leaves \<open>[-1]\<close>, not \<open>[1] - 1 * [1] = [0]\<close>.
\<close>

theorem SGD_repeated_parameter_counterexample:
  "dup_store 0 = Some \<lparr>buf = Vec [1], grad = Some (Vec [1])\<rparr>
   \<and> attached \<lparr>buf = Vec [1::real], grad = Some (Vec [1])\<rparr>
   \<and> SGD real_arith [0, 0] 1 dup_store
       = Some (dup_store(0 \<mapsto> \<lparr>buf = Vec [- 1], grad = Some (Vec [1])\<rparr>))
   \<and> descent real_arith 1 (Vec [1]) (Vec [1]) = Vec [0]"
  by (simp add: dup_store_def attached_def descent_def real_arith_def nd_sub_def nd_scale_def
      broadcast_op_def bdim_def ncols_def stretch_def assign_all_def)

text \<open>
  Claim C5. \<open>SGD\<close> writes through the references it is given: it returns a store with the
  same objects, no object is created or dropped, every object keeps its gradient buffer and
  the shape of its value; only stored values change. The list of references is an argument
  that \<open>SGD\<close> does not return, so the caller's list still names the same objects in the
  same order; for the notebook that list is \<open>params\<close>, six parameters.
\<close>

theorem SGD_in_place:
  assumes "\<forall>p\<in>set ps. \<exists>t. \<sigma> p = Some t \<and> attached t"
  shows "\<exists>\<sigma>'. SGD A ps lr \<sigma> = Some \<sigma>'
           \<and> dom \<sigma>' = dom \<sigma>
           \<and> (\<forall>a t. \<sigma> a = Some t \<longrightarrow>
                 (\<exists>t'. \<sigma>' a = Some t' \<and> grad t' = grad t \<and> shape (buf t') = shape (buf t)))"
  using SGD_frame[OF assms, of A lr] by blast

theorem SGD_in_place_witness:
  "list_all (\<lambda>p. \<exists>t. small_store p = Some t \<and> attached t) params
   \<and> length params = 6
   \<and> (\<exists>\<sigma>'. SGD real_arith params (1 / 100) small_store = Some \<sigma>'
         \<and> dom \<sigma>' = dom small_store
         \<and> list_all (\<lambda>p. \<exists>t t'. small_store p = Some t \<and> \<sigma>' p = Some t' \<and> grad t' = grad t
                              \<and> grad t' \<noteq> None \<and> shape (buf t') = shape (buf t)) params)"
proof -
  have a: "\<forall>p\<in>set params. \<exists>t. small_store p = Some t \<and> attached t"
    using small_store_attached by (simp add: list_all_iff)
  from SGD_in_place[OF a, of real_arith "1 / 100"] obtain \<sigma>' where
    s: "SGD real_arith params (1 / 100) small_store = Some \<sigma>'" "dom \<sigma>' = dom small_store"
    and k: "\<And>a t. small_store a = Some t \<Longrightarrow>
              \<exists>t'. \<sigma>' a = Some t' \<and> grad t' = grad t \<and> shape (buf t') = shape (buf t)"
    by blast
  have "\<exists>t t'. small_store p = Some t \<and> \<sigma>' p = Some t' \<and> grad t' = grad t
              \<and> grad t' \<noteq> None \<and> shape (buf t') = shape (buf t)" if "p \<in> set params" for p
  proof -
    from a that obtain t where t: "small_store p = Some t" "attached t" by blast
    from k[OF t(1)] obtain t' where "\<sigma>' p = Some t'" "grad t' = grad t"
      "shape (buf t') = shape (buf t)" by blast
    then show ?thesis using t attached_grad[OF t(2)] by auto
  qed
  then have "list_all (\<lambda>p. \<exists>t t'. small_store p = Some t \<and> \<sigma>' p = Some t' \<and> grad t' = grad t
                              \<and> grad t' \<noteq> None \<and> shape (buf t') = shape (buf t)) params"
    by (simp add: list_all_iff)
  moreover have "length params = 6" by (simp add: params_def)
  ultimately show ?thesis using small_store_attached s by blast
qed

section \<open>The forward pass\<close>

lemma is_mat_wf: "is_mat n k m \<Longrightarrow> 0 < n \<Longrightarrow> 0 < k \<Longrightarrow> wf_nd (Mat m)"
  by (cases m) (auto simp: is_mat_def ncols_def)

lemma is_mat_affine:
  assumes "is_mat n m X" "is_mat m k W" "0 < m" "length c = k"
  shows "is_mat n k (affine A X W c)"
proof -
  have "ncols W = k" using assms by (auto simp: is_mat_ncols is_mat_def)
  then show ?thesis using assms by (simp add: affine_def is_mat_def list_all_iff)
qed

lemma affine_eq:
  assumes "is_mat n m X" "is_mat m k W" "0 < n" "0 < m" "length c = k"
  shows "Option.bind (nd_dot A (Mat X) (Mat W)) (\<lambda>d. nd_add A d (Vec c))
         = Some (Mat (affine A X W c))"
proof -
  let ?D = "map (\<lambda>r. map (dot_row A r W) [0..<ncols W]) X"
  have cX: "ncols X = m" using assms by (auto simp: is_mat_ncols is_mat_def)
  have cW: "ncols W = k" using assms by (auto simp: is_mat_ncols is_mat_def)
  have lW: "length W = m" using assms by (simp add: is_mat_def)
  have 1: "nd_dot A (Mat X) (Mat W) = Some (Mat ?D)" using cX lW by simp
  have D: "is_mat n k ?D" using assms cW by (simp add: is_mat_def list_all_iff)
  have 2: "nd_add A (Mat ?D) (Vec c) = Some (Mat (map (\<lambda>r. map2 (fadd A) r c) ?D))"
    unfolding nd_add_def using D assms(3,5) by (rule broadcast_mat_rowvec)
  show ?thesis unfolding 1 by (simp add: 2 affine_def comp_def)
qed

lemma is_mat_relu_rows: "is_mat n k (relu_rows A H) = is_mat n k H"
  by (simp add: relu_rows_def is_mat_map)

lemma relu_rows_eq:
  "is_mat n k H \<Longrightarrow> 0 < n \<Longrightarrow> 0 < k \<Longrightarrow> relu A (Mat H) = Some (Mat (relu_rows A H))"
  using relu_eq[OF is_mat_wf, of n k H A] by (simp add: relu_rows_def)

lemma is_mat_softmax_rows: "is_mat n k (softmax_rows A Y) = is_mat n k Y"
  by (simp add: softmax_rows_def softmax_row_def is_mat_def list_all_iff Let_def)

lemma softmax_rows_eq:
  "is_mat n k Y \<Longrightarrow> 0 < n \<Longrightarrow> 0 < k \<Longrightarrow> softmax A (Mat Y) = Some (Mat (softmax_rows A Y))"
  using softmax_eq[OF is_mat_wf, of n k Y A] by (simp add: softmax_rows_def)

lemma net_eq_general:
  assumes "lookup \<sigma> W1 = Some (Mat w1)" "is_mat d0 d1 w1" "lookup \<sigma> b1 = Some (Vec c1)" "length c1 = d1"
    and "lookup \<sigma> W2 = Some (Mat w2)" "is_mat d1 d2 w2" "lookup \<sigma> b2 = Some (Vec c2)" "length c2 = d2"
    and "lookup \<sigma> W3 = Some (Mat w3)" "is_mat d2 d3 w3" "lookup \<sigma> b3 = Some (Vec c3)" "length c3 = d3"
    and "0 < d0" "0 < d1" "0 < d2" "0 < d3"
    and "is_mat n d0 X" "0 < n"
  shows "net A \<sigma> (Mat X) = Some (Mat (mlp A w1 c1 w2 c2 w3 c3 X))"
    and "is_mat n d3 (mlp A w1 c1 w2 c2 w3 c3 X)"
proof -
  let ?a1 = "affine A X w1 c1"
  let ?h1 = "relu_rows A ?a1"
  let ?a2 = "affine A ?h1 w2 c2"
  let ?h2 = "relu_rows A ?a2"
  let ?a3 = "affine A ?h2 w3 c3"
  have m1: "is_mat n d1 ?a1" using assms by (intro is_mat_affine[of n d0]) simp_all
  then have mh1: "is_mat n d1 ?h1" by (simp add: is_mat_relu_rows)
  have m2: "is_mat n d2 ?a2" using mh1 assms by (intro is_mat_affine[of n d1]) simp_all
  then have mh2: "is_mat n d2 ?h2" by (simp add: is_mat_relu_rows)
  have m3: "is_mat n d3 ?a3" using mh2 assms by (intro is_mat_affine[of n d2]) simp_all
  have e1: "Option.bind (nd_dot A (Mat X) (Mat w1)) (\<lambda>d. nd_add A d (Vec c1)) = Some (Mat ?a1)"
    using assms by (intro affine_eq[of n d0 _ d1]) simp_all
  have r1: "relu A (Mat ?a1) = Some (Mat ?h1)"
    using m1 assms by (intro relu_rows_eq[of n d1]) simp_all
  have e2: "Option.bind (nd_dot A (Mat ?h1) (Mat w2)) (\<lambda>d. nd_add A d (Vec c2)) = Some (Mat ?a2)"
    using mh1 assms by (intro affine_eq[of n d1 _ d2]) simp_all
  have r2: "relu A (Mat ?a2) = Some (Mat ?h2)"
    using m2 assms by (intro relu_rows_eq[of n d2]) simp_all
  have e3: "Option.bind (nd_dot A (Mat ?h2) (Mat w3)) (\<lambda>d. nd_add A d (Vec c3)) = Some (Mat ?a3)"
    using mh2 assms by (intro affine_eq[of n d2 _ d3]) simp_all
  have s: "softmax A (Mat ?a3) = Some (Mat (softmax_rows A ?a3))"
    using m3 assms by (intro softmax_rows_eq[of n d3]) simp_all
  obtain D1 where D1: "nd_dot A (Mat X) (Mat w1) = Some D1" "nd_add A D1 (Vec c1) = Some (Mat ?a1)"
    using e1 by (auto simp: bind_eq_Some_conv)
  obtain D2 where D2: "nd_dot A (Mat ?h1) (Mat w2) = Some D2" "nd_add A D2 (Vec c2) = Some (Mat ?a2)"
    using e2 by (auto simp: bind_eq_Some_conv)
  obtain D3 where D3: "nd_dot A (Mat ?h2) (Mat w3) = Some D3" "nd_add A D3 (Vec c3) = Some (Mat ?a3)"
    using e3 by (auto simp: bind_eq_Some_conv)
  show "net A \<sigma> (Mat X) = Some (Mat (mlp A w1 c1 w2 c2 w3 c3 X))"
    unfolding net_def mlp_def
    by (simp only: assms(1,3,5,7,9,11) D1 D2 D3 r1 r2 s bind.bind_lunit)
  show "is_mat n d3 (mlp A w1 c1 w2 c2 w3 c3 X)"
    unfolding mlp_def using m3 by (simp add: is_mat_softmax_rows)
qed

lemma is_mat_replicate: "is_mat n k (replicate n (replicate k x))"
  by (simp add: is_mat_def list_all_iff)

lemma zero_store_params:
  "has_params zero_store (replicate 784 (replicate 256 0)) (replicate 256 0)
     (replicate 256 (replicate 128 0)) (replicate 128 0)
     (replicate 128 (replicate 10 0)) (replicate 10 0)"
  by (simp add: has_params_def zero_store_def lookup_def is_mat_replicate globals_defs)

text \<open>
  Claim C1. For every batch \<open>X\<close> of shape (n, 784), \<open>net\<close> returns
  \<open>softmax(relu(relu(X \<cdot> W1 + b1) \<cdot> W2 + b2) \<cdot> W3 + b3)\<close>, two hidden affine layers each
  followed by the rectifier and a third affine layer followed by softmax, and the result has
  shape (n, 10). This holds for every arithmetic.
\<close>

theorem net_is_three_layer_perceptron:
  assumes "has_params \<sigma> w1 c1 w2 c2 w3 c3" "is_mat n 784 X" "0 < n"
  shows "net A \<sigma> (Mat X) = Some (Mat (mlp A w1 c1 w2 c2 w3 c3 X))
         \<and> shape (Mat (mlp A w1 c1 w2 c2 w3 c3 X)) = [n, 10]"
proof -
  have p: "lookup \<sigma> W1 = Some (Mat w1)" "is_mat 784 256 w1"
    "lookup \<sigma> b1 = Some (Vec c1)" "length c1 = 256"
    "lookup \<sigma> W2 = Some (Mat w2)" "is_mat 256 128 w2"
    "lookup \<sigma> b2 = Some (Vec c2)" "length c2 = 128"
    "lookup \<sigma> W3 = Some (Mat w3)" "is_mat 128 10 w3"
    "lookup \<sigma> b3 = Some (Vec c3)" "length c3 = 10"
    using assms(1) by (simp_all add: has_params_def)
  have pos: "(0::nat) < 784" "(0::nat) < 256" "(0::nat) < 128" "(0::nat) < 10" by simp_all
  note r = net_eq_general[OF p pos assms(2,3), of A]
  have "length (mlp A w1 c1 w2 c2 w3 c3 X) = n" using r(2) by (simp add: is_mat_def)
  moreover have "ncols (mlp A w1 c1 w2 c2 w3 c3 X) = 10"
    using r(2) assms(3) by (auto simp: is_mat_ncols is_mat_def)
  ultimately show ?thesis using r(1) by simp
qed

theorem net_is_three_layer_perceptron_witness:
  "has_params zero_store (replicate 784 (replicate 256 0)) (replicate 256 0)
     (replicate 256 (replicate 128 0)) (replicate 128 0)
     (replicate 128 (replicate 10 0)) (replicate 10 0)
   \<and> is_mat 2 784 [replicate 784 1, replicate 784 (0::real)]
   \<and> (\<exists>Y. net real_arith zero_store (Mat [replicate 784 1, replicate 784 0]) = Some (Mat Y)
          \<and> shape (Mat Y) = [2, 10])"
proof -
  have x: "is_mat 2 784 [replicate 784 1, replicate 784 (0::real)]" by (simp add: is_mat_def)
  have n: "(0::nat) < 2" by simp
  note r = net_is_three_layer_perceptron[OF zero_store_params x n, of real_arith]
  show ?thesis
    by (intro conjI exI, rule zero_store_params, rule x, rule conjunct1[OF r], rule conjunct2[OF r])
qed

section \<open>The evaluation metric\<close>

lemma metric_update_add:
  "metric_update A m label output
   = map_option (\<lambda>m0. add_counts m (sum_metric m0, num_inst m0))
       (metric_update A Accuracy label output)"
  by (cases "(A, m, label, output)" rule: metric_update.cases)
     (simp_all add: add_counts_def Accuracy_def)

lemma add_counts_add: "add_counts (add_counts m (h, n)) (h', n') = add_counts m (h + h', n + n')"
  by (simp add: add_counts_def)

lemma add_counts_zero: "add_counts m (0, 0) = m"
  by (simp add: add_counts_def)

lemma evaluate_batches_counts:
  "evaluate_batches A bs net_fn m = map_option (add_counts m) (count_all A net_fn bs)"
proof (induction bs arbitrary: m)
  case Nil
  then show ?case by (simp add: add_counts_zero)
next
  case (Cons b bs)
  show ?case
  proof (cases "reshape_rows 784 (bdata b)")
    case None
    then show ?thesis by (simp add: count_batch_def)
  next
    case (Some data)
    show ?thesis
    proof (cases "net_fn data")
      case None
      then show ?thesis using Some by (simp add: count_batch_def)
    next
      case out: (Some outp)
      show ?thesis
      proof (cases "metric_update A Accuracy (blabel b) outp")
        case None
        then show ?thesis
          using Some out metric_update_add[of A m "blabel b" outp]
          by (simp add: count_batch_def)
      next
        case m0: (Some m0)
        then show ?thesis
          using Some out metric_update_add[of A m "blabel b" outp] Cons.IH
          by (cases "count_all A net_fn bs") (auto simp: count_batch_def add_counts_add)
      qed
    qed
  qed
qed

lemma evaluate_accuracy_counts:
  "evaluate_accuracy A bs net_fn m
   = map_option (\<lambda>c. (add_counts m c, metric_get (add_counts m c))) (count_all A net_fn bs)"
  by (cases "count_all A net_fn bs") (simp_all add: evaluate_accuracy_def evaluate_batches_counts)

lemma chop_concat:
  "list_all (\<lambda>r. length r = k) m \<Longrightarrow> 0 < k \<Longrightarrow> chop k (concat m) = m"
proof (induction m)
  case Nil
  then show ?case by (simp add: chop.simps)
next
  case (Cons r m)
  then have "r \<noteq> []" "length r = k" by auto
  then show ?case using Cons by (subst chop.simps) simp
qed

lemma length_concat_is_mat: "is_mat n k m \<Longrightarrow> length (concat m) = n * k"
  by (induction m arbitrary: n) (auto simp: is_mat_def)

lemma reshape_rows_mat:
  assumes "is_mat n k m" "0 < n" "0 < k"
  shows "reshape_rows k (Mat m) = Some (Mat m)"
proof -
  have "concat m \<noteq> []" using wf_mat_concat[OF is_mat_wf[OF assms]] .
  moreover have "length (concat m) mod k = 0" using assms by (simp add: length_concat_is_mat)
  moreover have "chop k (concat m) = m" using assms by (simp add: chop_concat is_mat_def)
  ultimately show ?thesis using assms by (simp add: reshape_rows_def)
qed

lemma dot_row_zero:
  "length r = m \<Longrightarrow> j < k \<Longrightarrow> dot_row real_arith r (replicate m (replicate k 0)) j = 0"
  by (simp add: dot_row_def map2_replicate_right fsum_real) (simp add: real_arith_def)

lemma affine_zero:
  assumes "is_mat n m X" "0 < m"
  shows "affine real_arith X (replicate m (replicate k 0)) (replicate k 0)
         = replicate n (replicate k 0)"
proof -
  have c: "ncols (replicate m (replicate k (0::real))) = k"
    using assms(2) by (cases m) (simp_all add: ncols_def)
  have "map2 (fadd real_arith) (map (dot_row real_arith r (replicate m (replicate k 0))) [0..<k])
          (replicate k 0) = replicate k 0" if "r \<in> set X" for r
  proof -
    have "map (dot_row real_arith r (replicate m (replicate k 0))) [0..<k] = map (\<lambda>_. 0) [0..<k]"
      by (rule map_cong) (use is_mat_row[OF assms(1) that] in \<open>simp_all add: dot_row_zero\<close>)
    then show ?thesis
      by (simp add: map2_replicate_right map_replicate_const) (simp add: real_arith_def)
  qed
  then have "affine real_arith X (replicate m (replicate k 0)) (replicate k 0)
             = map (\<lambda>_. replicate k 0) X"
    unfolding affine_def c by (intro map_cong) simp_all
  then show ?thesis using assms(1) by (simp add: map_replicate_const is_mat_def)
qed

lemma relu_rows_zero: "relu_rows real_arith (replicate n (replicate k 0)) = replicate n (replicate k 0)"
  by (simp add: relu_rows_def real_arith_def)

lemma softmax_rows_zero:
  "softmax_rows real_arith (replicate n (replicate 10 0)) = replicate n (replicate 10 (1 / 10))"
  by (simp add: softmax_rows_def softmax_row_shift[abs_def] sum_list_replicate)

lemma net_zero_store:
  assumes "is_mat n 784 X" "0 < n"
  shows "net real_arith zero_store (Mat X) = Some (Mat (replicate n (replicate 10 (1 / 10))))"
proof -
  note g = net_eq_general(1)[where A = real_arith and \<sigma> = zero_store and X = X and n = n
      and ?d0.0 = 784 and ?d1.0 = 256 and ?d2.0 = 128 and ?d3.0 = 10]
  have p: "has_params zero_store (replicate 784 (replicate 256 0)) (replicate 256 0)
     (replicate 256 (replicate 128 0)) (replicate 128 0)
     (replicate 128 (replicate 10 0)) (replicate 10 0)" by (rule zero_store_params)
  have "net real_arith zero_store (Mat X)
        = Some (Mat (mlp real_arith (replicate 784 (replicate 256 0)) (replicate 256 0)
     (replicate 256 (replicate 128 0)) (replicate 128 0)
     (replicate 128 (replicate 10 0)) (replicate 10 0) X))"
    using p assms by (intro g) (simp_all add: has_params_def)
  moreover have "mlp real_arith (replicate 784 (replicate 256 0)) (replicate 256 0)
     (replicate 256 (replicate 128 0)) (replicate 128 0)
     (replicate 128 (replicate 10 0)) (replicate 10 0) X = replicate n (replicate 10 (1 / 10))"
    unfolding mlp_def
    by (simp add: affine_zero[OF assms(1)] relu_rows_zero
        affine_zero[OF is_mat_replicate] softmax_rows_zero)
  ultimately show ?thesis by simp
qed

lemma argmax_from_replicate:
  "\<not> fless A x x \<Longrightarrow> argmax_from A x bi i (replicate n x) = bi"
  by (induction n arbitrary: i) simp_all

lemma argmax_row_uniform: "argmax_row real_arith (replicate 10 (1 / 10)) = 0"
proof -
  have "replicate 10 (1 / 10 :: real) = (1 / 10) # replicate 9 (1 / 10)"
    by (simp add: numeral_eq_Suc)
  then show ?thesis
    by (simp add: argmax_row_def argmax_from_replicate real_arith_def)
qed

lemma count_batch_zero_store:
  "count_batch real_arith (net real_arith zero_store) \<lparr>bdata = image0, blabel = Vec [l]\<rparr>
   = Some (if to_int real_arith l = 0 then 1 else 0, 1)"
proof -
  have m: "is_mat 1 784 [replicate 784 (0::real)]" by (simp add: is_mat_def)
  have r: "reshape_rows 784 image0 = Some image0"
    unfolding image0_def using m by (rule reshape_rows_mat) simp_all
  have n: "net real_arith zero_store image0 = Some (Mat [replicate 10 (1 / 10)])"
    unfolding image0_def using net_zero_store[OF m] by simp
  show ?thesis
    by (simp add: count_batch_def r n hits_def argmax_row_uniform Accuracy_def)
qed

lemma evaluate_accuracy_example:
  "evaluate_accuracy real_arith [hit_batch] (net real_arith zero_store) Accuracy
     = Some (\<lparr>sum_metric = 1, num_inst = 1\<rparr>, Float 1)"
  "evaluate_accuracy real_arith [miss_batch] (net real_arith zero_store)
       \<lparr>sum_metric = 1, num_inst = 1\<rparr>
     = Some (\<lparr>sum_metric = 1, num_inst = 2\<rparr>, Float (1 / 2))"
  "evaluate_accuracy real_arith [miss_batch] (net real_arith zero_store)
       \<lparr>sum_metric = 1, num_inst = 2\<rparr>
     = Some (\<lparr>sum_metric = 1, num_inst = 3\<rparr>, Float (1 / 3))"
  by (simp_all add: evaluate_accuracy_counts hit_batch_def miss_batch_def count_batch_zero_store
      add_counts_def metric_get_def Accuracy_def) (simp_all add: real_arith_def)

text \<open>
  Claim C8. \<open>evaluate_accuracy\<close> is not a function of its arguments alone: it adds the
  hits and the rows of its batches to the counters of the global metric, which nothing resets,
  and returns the quotient of the accumulated counters. Two successive calls on the same data
  with the same parameters can return different values: after one call on a correctly
  classified batch, two calls on a misclassified batch return 1/2 and 1/3.
\<close>

theorem evaluate_accuracy_accumulates:
  "evaluate_accuracy A bs net_fn m
     = map_option (\<lambda>c. (add_counts m c, metric_get (add_counts m c))) (count_all A net_fn bs)
   \<and> (\<exists>test_data train_data m0 a0 m1 a1 m2 a2.
         evaluate_accuracy real_arith test_data (net real_arith zero_store) Accuracy = Some (m0, a0)
       \<and> evaluate_accuracy real_arith train_data (net real_arith zero_store) m0 = Some (m1, a1)
       \<and> evaluate_accuracy real_arith train_data (net real_arith zero_store) m1 = Some (m2, a2)
       \<and> a1 \<noteq> a2)"
proof
  show "evaluate_accuracy A bs net_fn m
     = map_option (\<lambda>c. (add_counts m c, metric_get (add_counts m c))) (count_all A net_fn bs)"
    by (rule evaluate_accuracy_counts)
  have "Float (1 / 2) \<noteq> Float (1 / 3)" by simp
  with evaluate_accuracy_example
  show "\<exists>test_data train_data m0 a0 m1 a1 m2 a2.
         evaluate_accuracy real_arith test_data (net real_arith zero_store) Accuracy = Some (m0, a0)
       \<and> evaluate_accuracy real_arith train_data (net real_arith zero_store) m0 = Some (m1, a1)
       \<and> evaluate_accuracy real_arith train_data (net real_arith zero_store) m1 = Some (m2, a2)
       \<and> a1 \<noteq> a2"
    by blast
qed

theorem evaluate_accuracy_accumulates_witness:
  "evaluate_accuracy real_arith [miss_batch, hit_batch] (net real_arith zero_store)
       \<lparr>sum_metric = 3, num_inst = 4\<rparr>
     = Some (\<lparr>sum_metric = 4, num_inst = 6\<rparr>, Float (2 / 3))
   \<and> evaluate_accuracy real_arith [miss_batch, hit_batch] (net real_arith zero_store)
       \<lparr>sum_metric = 4, num_inst = 6\<rparr>
     = Some (\<lparr>sum_metric = 5, num_inst = 8\<rparr>, Float (5 / 8))"
proof -
  have c: "count_all real_arith (net real_arith zero_store) [miss_batch, hit_batch] = Some (1, 2)"
    by (simp add: hit_batch_def miss_batch_def count_batch_zero_store) (simp add: real_arith_def)
  note t1 = evaluate_accuracy_accumulates[of real_arith "[miss_batch, hit_batch]"
      "net real_arith zero_store" "\<lparr>sum_metric = 3, num_inst = 4\<rparr>", THEN conjunct1, unfolded c]
  note t2 = evaluate_accuracy_accumulates[of real_arith "[miss_batch, hit_batch]"
      "net real_arith zero_store" "\<lparr>sum_metric = 4, num_inst = 6\<rparr>", THEN conjunct1, unfolded c]
  show ?thesis
    by (simp add: t1 t2 add_counts_def metric_get_def)
qed

section \<open>The training loop\<close>

lemma has_shape_mat:
  assumes "has_shape \<sigma> a [n, k]"
  shows "\<exists>m. lookup \<sigma> a = Some (Mat m) \<and> is_mat n k m"
proof -
  from assms obtain t where t: "\<sigma> a = Some t" "attached t" "shape (buf t) = [n, k]"
    by (auto simp: has_shape_def split: option.splits)
  then have w: "wf_nd (buf t)" by (auto simp: attached_def split: option.splits)
  from t(3) obtain m where m: "buf t = Mat m" by (cases "buf t") auto
  then have "is_mat n k m" using w t(3) by simp
  then show ?thesis using t(1) m by (simp add: lookup_def)
qed

lemma has_shape_vec:
  assumes "has_shape \<sigma> a [k]"
  shows "\<exists>c. lookup \<sigma> a = Some (Vec c) \<and> length c = k"
proof -
  from assms obtain t where t: "\<sigma> a = Some t" "shape (buf t) = [k]"
    by (auto simp: has_shape_def split: option.splits)
  from t(2) obtain c where "buf t = Vec c" "length c = k" by (cases "buf t") auto
  then show ?thesis using t(1) by (simp add: lookup_def)
qed

lemma initialised_params:
  assumes "initialised \<sigma>"
  shows "\<exists>w1 c1 w2 c2 w3 c3. has_params \<sigma> w1 c1 w2 c2 w3 c3"
proof -
  from assms have h: "has_shape \<sigma> W1 [784, 256]" "has_shape \<sigma> b1 [256]"
    "has_shape \<sigma> W2 [256, 128]" "has_shape \<sigma> b2 [128]"
    "has_shape \<sigma> W3 [128, 10]" "has_shape \<sigma> b3 [10]"
    by (simp_all add: initialised_def)
  from has_shape_mat[OF h(1)] has_shape_vec[OF h(2)] has_shape_mat[OF h(3)]
    has_shape_vec[OF h(4)] has_shape_mat[OF h(5)] has_shape_vec[OF h(6)]
  show ?thesis unfolding has_params_def by blast
qed

lemma initialised_attached:
  "initialised \<sigma> \<Longrightarrow> \<forall>p\<in>set params. \<exists>t. \<sigma> p = Some t \<and> attached t"
  by (auto simp: initialised_def has_shape_def params_def split: option.splits)


lemma has_shape_backward:
  assumes "grad_ok G" "has_shape \<sigma> a s"
  shows "has_shape (backward G \<sigma> data y) a s"
proof -
  from assms(2) obtain t where t: "\<sigma> a = Some t" "attached t" "shape (buf t) = s"
    by (auto simp: has_shape_def split: option.splits)
  then have w: "wf_nd (buf t)" by (auto simp: attached_def split: option.splits)
  have "wf_nd (G \<sigma> data y a)" "shape (G \<sigma> data y a) = shape (buf t)"
    using assms(1) t(1) w by (auto simp: grad_ok_def)
  then have "attached (t\<lparr>grad := Some (G \<sigma> data y a)\<rparr>)"
    using w by (simp add: attached_def)
  then show ?thesis using t by (simp add: has_shape_def backward_def)
qed

lemma initialised_backward:
  "grad_ok G \<Longrightarrow> initialised \<sigma> \<Longrightarrow> initialised (backward G \<sigma> data y)"
  by (simp add: initialised_def has_shape_backward)

lemma initialised_SGD:
  assumes "initialised \<sigma>"
  shows "\<exists>\<sigma>'. SGD A params lr \<sigma> = Some \<sigma>' \<and> initialised \<sigma>'"
proof -
  from SGD_frame[OF initialised_attached[OF assms], of A lr] obtain \<sigma>' where
    s: "SGD A params lr \<sigma> = Some \<sigma>'"
    and k: "\<And>a t. \<sigma> a = Some t \<Longrightarrow>
             \<exists>t'. \<sigma>' a = Some t' \<and> grad t' = grad t \<and> shape (buf t') = shape (buf t)
                  \<and> (attached t \<longrightarrow> attached t')"
    by blast
  have "has_shape \<sigma>' a sh" if "has_shape \<sigma> a sh" for a sh
  proof -
    from that obtain t where t: "\<sigma> a = Some t" "attached t" "shape (buf t) = sh"
      by (auto simp: has_shape_def split: option.splits)
    from k[OF t(1)] t show ?thesis by (auto simp: has_shape_def)
  qed
  then have "initialised \<sigma>'" using assms by (simp add: initialised_def)
  then show ?thesis using s by blast
qed

lemma is_mat_chop:
  "length xs = n * k \<Longrightarrow> 0 < k \<Longrightarrow> is_mat n k (chop k xs)"
proof (induction n arbitrary: xs)
  case 0
  then show ?case by (simp add: chop.simps is_mat_def)
next
  case (Suc n)
  then have ne: "xs \<noteq> []" by auto
  have "length (drop k xs) = n * k" using Suc.prems by simp
  then have "is_mat n k (chop k (drop k xs))" using Suc by blast
  moreover have "length (take k xs) = k" using Suc.prems by simp
  ultimately show ?case
    using ne Suc.prems(2) by (subst chop.simps) (simp add: is_mat_def)
qed

lemma reshape_rows_batch:
  assumes "wf_batch batch"
  shows "\<exists>l X. blabel batch = Vec l \<and> l \<noteq> [] \<and> reshape_rows 784 (bdata batch) = Some (Mat X)
               \<and> is_mat (length l) 784 X"
proof -
  from assms obtain l where l: "blabel batch = Vec l" "l \<noteq> []"
    "length (flat (bdata batch)) = length l * 784"
    by (auto simp: wf_batch_def split: ndarray.splits)
  then have "flat (bdata batch) \<noteq> []" by auto
  moreover have "is_mat (length l) 784 (chop 784 (flat (bdata batch)))"
    using l(3) by (rule is_mat_chop) simp
  ultimately show ?thesis using l by (simp add: reshape_rows_def)
qed

lemma is_mat_one_hot: "is_mat (length l) depth (rows_of (nd_one_hot A (Vec l) depth))"
  by (simp add: nd_one_hot_def is_mat_def list_all_iff)

lemma nd_one_hot_Mat: "nd_one_hot A label depth = Mat (rows_of (nd_one_hot A label depth))"
  by (simp add: nd_one_hot_def)

lemma net_initialised:
  assumes "initialised \<sigma>" "is_mat n 784 X" "0 < n"
  shows "\<exists>Y. net A \<sigma> (Mat X) = Some (Mat Y) \<and> is_mat n 10 Y"
proof -
  from initialised_params[OF assms(1)] obtain w1 c1 w2 c2 w3 c3
    where p: "has_params \<sigma> w1 c1 w2 c2 w3 c3" by blast
  then have q: "lookup \<sigma> W1 = Some (Mat w1)" "is_mat 784 256 w1"
    "lookup \<sigma> b1 = Some (Vec c1)" "length c1 = 256"
    "lookup \<sigma> W2 = Some (Mat w2)" "is_mat 256 128 w2"
    "lookup \<sigma> b2 = Some (Vec c2)" "length c2 = 128"
    "lookup \<sigma> W3 = Some (Mat w3)" "is_mat 128 10 w3"
    "lookup \<sigma> b3 = Some (Vec c3)" "length c3 = 10"
    by (simp_all add: has_params_def)
  have pos: "(0::nat) < 784" "(0::nat) < 256" "(0::nat) < 128" "(0::nat) < 10" by simp_all
  from net_eq_general[OF q pos assms(2,3), of A] show ?thesis by blast
qed

lemma train_batch_detail:
  assumes "initialised \<sigma>" "grad_ok G" "wf_batch batch"
  shows "\<exists>l X Y \<sigma>'. blabel batch = Vec l \<and> l \<noteq> [] \<and> is_mat (length l) 784 X
           \<and> net A \<sigma> (Mat X) = Some (Mat Y) \<and> is_mat (length l) 10 Y
           \<and> SGD A params (1 / 100) (backward G \<sigma> (Mat X) (nd_one_hot A (Vec l) 10)) = Some \<sigma>'
           \<and> train_batch A G \<sigma> batch
               = Some (\<sigma>', Vec (map2 (ce_row A) (rows_of (nd_one_hot A (Vec l) 10)) Y))
           \<and> initialised \<sigma>'"
proof -
  from reshape_rows_batch[OF assms(3)] obtain l X where
    b: "blabel batch = Vec l" "l \<noteq> []" "reshape_rows 784 (bdata batch) = Some (Mat X)"
      "is_mat (length l) 784 X" by blast
  then have n: "0 < length l" by simp
  from net_initialised[OF assms(1) b(4) n, of A] obtain Y where
    y: "net A \<sigma> (Mat X) = Some (Mat Y)" "is_mat (length l) 10 Y" by blast
  let ?oh = "nd_one_hot A (Vec l) 10"
  have oh: "?oh = Mat (rows_of ?oh)" "is_mat (length l) 10 (rows_of ?oh)"
    using nd_one_hot_Mat is_mat_one_hot by blast+
  have ce: "cross_entropy A (Mat Y) ?oh = Some (Vec (map2 (ce_row A) (rows_of ?oh) Y))"
    using cross_entropy_eq[OF y(2) oh(2), of A] oh(1) by simp
  have "initialised (backward G \<sigma> (Mat X) ?oh)"
    using assms(2,1) by (rule initialised_backward)
  from initialised_SGD[OF this, of A "1 / 100"] obtain \<sigma>' where
    s: "SGD A params (1 / 100) (backward G \<sigma> (Mat X) ?oh) = Some \<sigma>'" "initialised \<sigma>'"
    by blast
  have "train_batch A G \<sigma> batch = Some (\<sigma>', Vec (map2 (ce_row A) (rows_of ?oh) Y))"
    unfolding train_batch_def by (simp add: b y ce s Let_def)
  then show ?thesis using b y s by blast
qed

lemma train_batch_total:
  assumes "initialised \<sigma>" "grad_ok G" "wf_batch batch"
  shows "\<exists>\<sigma>' x xs. train_batch A G \<sigma> batch = Some (\<sigma>', Vec (x # xs)) \<and> initialised \<sigma>'"
proof -
  from train_batch_detail[OF assms, of A] obtain l X Y \<sigma>' where
    d: "l \<noteq> []" "is_mat (length l) 10 Y"
      "train_batch A G \<sigma> batch
         = Some (\<sigma>', Vec (map2 (ce_row A) (rows_of (nd_one_hot A (Vec l) 10)) Y))"
      "initialised \<sigma>'"
    by blast
  have "length (map2 (ce_row A) (rows_of (nd_one_hot A (Vec l) 10)) Y) = length l"
    using d(2) is_mat_one_hot[of l 10 A] by (simp add: is_mat_def)
  then obtain x xs where "map2 (ce_row A) (rows_of (nd_one_hot A (Vec l) 10)) Y = x # xs"
    using d(1) by (cases "map2 (ce_row A) (rows_of (nd_one_hot A (Vec l) 10)) Y") auto
  then show ?thesis using d(3,4) by auto
qed

lemma train_batch_update_once:
  "train_batch A G \<sigma> batch = Some (\<sigma>', loss) \<Longrightarrow> update_once A G \<sigma> batch = Some \<sigma>'"
  by (auto simp: train_batch_def update_once_def Let_def bind_eq_Some_conv)

lemma train_batches_later:
  assumes "initialised \<sigma>" "grad_ok G" "list_all wf_batch bs"
  shows "\<exists>\<sigma>' ls. train_batches A G (Suc i) bs (\<sigma>, ml) = Some (\<sigma>', foldl (ema_step A) ml ls)
           \<and> first_sample_losses A G \<sigma> bs = Some ls
           \<and> updates A G bs \<sigma> = Some \<sigma>' \<and> initialised \<sigma>'"
  using assms
proof (induction bs arbitrary: \<sigma> ml i)
  case Nil
  then show ?case by simp
next
  case (Cons b bs)
  then have wb: "wf_batch b" and wbs: "list_all wf_batch bs" by simp_all
  from train_batch_total[OF Cons.prems(1,2) wb, of A] obtain \<sigma>1 x xs where
    t: "train_batch A G \<sigma> b = Some (\<sigma>1, Vec (x # xs))" "initialised \<sigma>1" by blast
  from Cons.IH[OF t(2) Cons.prems(2) wbs, of "Suc i" "ema_step A ml x"] obtain \<sigma>' ls where
    r: "train_batches A G (Suc (Suc i)) bs (\<sigma>1, ema_step A ml x)
          = Some (\<sigma>', foldl (ema_step A) (ema_step A ml x) ls)"
      "first_sample_losses A G \<sigma>1 bs = Some ls" "updates A G bs \<sigma>1 = Some \<sigma>'" "initialised \<sigma>'"
    by blast
  have "train_batches A G (Suc i) (b # bs) (\<sigma>, ml) = Some (\<sigma>', foldl (ema_step A) ml (x # ls))"
    using t(1) r(1) by (simp add: ema_step_def)
  moreover have "first_sample_losses A G \<sigma> (b # bs) = Some (x # ls)"
    using t(1) r(2) by (simp add: element0_def)
  moreover have "updates A G (b # bs) \<sigma> = Some \<sigma>'"
    using train_batch_update_once[OF t(1)] r(3) by simp
  ultimately show ?case using r(4) by blast
qed

lemma train_batches_first:
  assumes "initialised \<sigma>" "grad_ok G" "list_all wf_batch (b # bs)"
  shows "\<exists>\<sigma>' l ls. train_batches A G 0 (b # bs) (\<sigma>, ml) = Some (\<sigma>', foldl (ema_step A) l ls)
           \<and> first_sample_losses A G \<sigma> (b # bs) = Some (l # ls)
           \<and> updates A G (b # bs) \<sigma> = Some \<sigma>' \<and> initialised \<sigma>'"
proof -
  from assms(3) have wb: "wf_batch b" and wbs: "list_all wf_batch bs" by simp_all
  from train_batch_total[OF assms(1,2) wb, of A] obtain \<sigma>1 x xs where
    t: "train_batch A G \<sigma> b = Some (\<sigma>1, Vec (x # xs))" "initialised \<sigma>1" by blast
  from train_batches_later[OF t(2) assms(2) wbs, of A 0 x] obtain \<sigma>' ls where
    r: "train_batches A G (Suc 0) bs (\<sigma>1, x) = Some (\<sigma>', foldl (ema_step A) x ls)"
      "first_sample_losses A G \<sigma>1 bs = Some ls" "updates A G bs \<sigma>1 = Some \<sigma>'" "initialised \<sigma>'"
    by blast
  have "train_batches A G 0 (b # bs) (\<sigma>, ml) = Some (\<sigma>', foldl (ema_step A) x ls)"
    using t(1) r(1) by simp
  moreover have "first_sample_losses A G \<sigma> (b # bs) = Some (x # ls)"
    using t(1) r(2) by (simp add: element0_def)
  moreover have "updates A G (b # bs) \<sigma> = Some \<sigma>'"
    using train_batch_update_once[OF t(1)] r(3) by simp
  ultimately show ?thesis using r(4) by blast
qed


lemma count_all_total:
  assumes "initialised \<sigma>" "list_all wf_batch bs"
  shows "\<exists>c. count_all A (net A \<sigma>) bs = Some c"
  using assms(2)
proof (induction bs)
  case Nil
  then show ?case by simp
next
  case (Cons b bs)
  then have wb: "wf_batch b" and wbs: "list_all wf_batch bs" by simp_all
  from reshape_rows_batch[OF wb] obtain l X where
    b: "blabel b = Vec l" "l \<noteq> []" "reshape_rows 784 (bdata b) = Some (Mat X)"
      "is_mat (length l) 784 X" by blast
  then have n: "0 < length l" by simp
  from net_initialised[OF assms(1) b(4) n, of A] obtain Y where
    y: "net A \<sigma> (Mat X) = Some (Mat Y)" "is_mat (length l) 10 Y" by blast
  have "length l = length Y" using y(2) by (simp add: is_mat_def)
  then have "\<exists>c. count_batch A (net A \<sigma>) b = Some c"
    by (simp add: count_batch_def b y)
  moreover from Cons.IH[OF wbs] obtain c' where "count_all A (net A \<sigma>) bs = Some c'" by blast
  ultimately show ?case by (cases c') auto
qed

lemma evaluate_accuracy_total:
  assumes "initialised \<sigma>" "list_all wf_batch bs"
  shows "\<exists>m' a. evaluate_accuracy A bs (net A \<sigma>) m = Some (m', a)"
  using count_all_total[OF assms, of A] by (auto simp: evaluate_accuracy_counts)



lemma train_epochs_step:
  assumes "initialised (tensors s)" "grad_ok G" "list_all wf_batch train_data"
    "train_data \<noteq> []" "list_all wf_batch test_data"
  shows "\<exists>\<sigma> l ls m2 ta te.
           first_sample_losses A G (tensors s) train_data = Some (l # ls)
           \<and> updates A G train_data (tensors s) = Some \<sigma> \<and> initialised \<sigma>
           \<and> train_epochs A G train_data test_data (e # es) s
              = train_epochs A G train_data test_data es
                  (s\<lparr>tensors := \<sigma>, the_metric := m2, moving_loss := foldl (ema_step A) l ls,
                     printed := printed s @ [(e, foldl (ema_step A) l ls, ta, te)]\<rparr>)"
proof -
  from assms(4) obtain b bs where bs: "train_data = b # bs" by (cases train_data) auto
  from train_batches_first[of "tensors s" G b bs A "moving_loss s"] assms(1,2,3) bs
  obtain \<sigma> l ls where
    t: "train_batches A G 0 train_data (tensors s, moving_loss s)
          = Some (\<sigma>, foldl (ema_step A) l ls)"
      "first_sample_losses A G (tensors s) train_data = Some (l # ls)"
      "updates A G train_data (tensors s) = Some \<sigma>" "initialised \<sigma>"
    by blast
  from evaluate_accuracy_total[OF t(4) assms(5), of A "the_metric s"] obtain m1 te where
    e1: "evaluate_accuracy A test_data (net A \<sigma>) (the_metric s) = Some (m1, te)" by blast
  from evaluate_accuracy_total[OF t(4) assms(3), of A m1] obtain m2 ta where
    e2: "evaluate_accuracy A train_data (net A \<sigma>) m1 = Some (m2, ta)" by blast
  have "train_epochs A G train_data test_data (e # es) s
        = train_epochs A G train_data test_data es
            (s\<lparr>tensors := \<sigma>, the_metric := m2, moving_loss := foldl (ema_step A) l ls,
               printed := printed s @ [(e, foldl (ema_step A) l ls, ta, te)]\<rparr>)"
    using t(1) e1 e2 by simp
  then show ?thesis using t(2,3,4) by blast
qed

lemma wf_replicate: "0 < n \<Longrightarrow> 0 < k \<Longrightarrow> wf_nd (Mat (replicate n (replicate k x)))"
  by (rule is_mat_wf[OF is_mat_replicate])

lemma shape_replicate: "0 < n \<Longrightarrow> shape (Mat (replicate n (replicate k x))) = [n, k]"
  by (cases n) (simp_all add: ncols_def)

lemma has_shape_replicate_mat:
  assumes "\<sigma> a = Some \<lparr>buf = Mat (replicate n (replicate k x)),
                        grad = Some (Mat (replicate n (replicate k y)))\<rparr>" "0 < n" "0 < k"
  shows "has_shape \<sigma> a [n, k]"
  using assms wf_replicate[of n k x] wf_replicate[of n k y]
    shape_replicate[of n k x] shape_replicate[of n k y]
  by (simp add: has_shape_def attached_def del: wf_nd.simps shape.simps)

lemma has_shape_replicate_vec:
  assumes "\<sigma> a = Some \<lparr>buf = Vec (replicate k x), grad = Some (Vec (replicate k y))\<rparr>" "0 < k"
  shows "has_shape \<sigma> a [k]"
  using assms by (simp add: has_shape_def attached_def)

lemma initialised_zero_store: "initialised zero_store"
  unfolding initialised_def
  by (intro conjI has_shape_replicate_mat has_shape_replicate_vec)
     (simp_all add: zero_store_def globals_defs)

lemma grad_ok_zero_grad: "grad_ok zero_grad"
  by (simp add: grad_ok_def zero_grad_def nd_zeros_like_def wf_map_nd shape_map_nd)

lemma wf_example_batches: "wf_batch hit_batch" "wf_batch miss_batch"
  by (simp_all add: wf_batch_def hit_batch_def miss_batch_def image0_def)




















text \<open>
  A run with two different losses: with the store \<open>biased_store\<close> and zero gradients the loss
  of a batch labelled 0 is \<open>-ln(1/2)\<close> and the loss of a batch labelled 1 is \<open>-ln(1/18)\<close>.
\<close>

lemma affine_zero_weights:
  assumes "is_mat n m X" "0 < m" "length c = k"
  shows "affine real_arith X (replicate m (replicate k 0)) c = replicate n c"
proof -
  have c: "ncols (replicate m (replicate k (0::real))) = k"
    using assms(2) by (cases m) (simp_all add: ncols_def)
  have "map2 (fadd real_arith) (map (dot_row real_arith r (replicate m (replicate k 0))) [0..<k]) c
        = c" if "r \<in> set X" for r
  proof -
    have "map (dot_row real_arith r (replicate m (replicate k 0))) [0..<k] = map (\<lambda>_. 0) [0..<k]"
      by (rule map_cong) (use is_mat_row[OF assms(1) that] in \<open>simp_all add: dot_row_zero\<close>)
    moreover have "map2 (fadd real_arith) (replicate k 0) c = c"
      using assms(3) by (simp add: map2_replicate_left real_arith_def map_idI)
    ultimately show ?thesis
      by (simp add: map_replicate_const)
  qed
  then have "affine real_arith X (replicate m (replicate k 0)) c = map (\<lambda>_. c) X"
    unfolding affine_def c by (intro map_cong) simp_all
  then show ?thesis using assms(1) by (simp add: map_replicate_const is_mat_def)
qed

lemma softmax_rows_biased:
  "softmax_rows real_arith (replicate n (ln 9 # replicate 9 0))
   = replicate n (1 / 2 # replicate 9 (1 / 18))"
  by (simp add: softmax_rows_def softmax_row_shift[abs_def] sum_list_replicate)

lemma net_biased:
  assumes "initialised \<sigma>" "biased \<sigma>" "is_mat n 784 X" "0 < n"
  shows "net real_arith \<sigma> (Mat X) = Some (Mat (replicate n (1 / 2 # replicate 9 (1 / 18))))"
proof -
  from initialised_params[OF assms(1)] obtain w1 c1 w2 c2 w3 c3
    where p: "has_params \<sigma> w1 c1 w2 c2 w3 c3" by blast
  then have q: "lookup \<sigma> W1 = Some (Mat w1)" "is_mat 784 256 w1"
    "lookup \<sigma> b1 = Some (Vec c1)" "length c1 = 256"
    "lookup \<sigma> W2 = Some (Mat w2)" "is_mat 256 128 w2"
    "lookup \<sigma> b2 = Some (Vec c2)" "length c2 = 128"
    "lookup \<sigma> W3 = Some (Mat w3)" "is_mat 128 10 w3"
    "lookup \<sigma> b3 = Some (Vec c3)" "length c3 = 10"
    by (simp_all add: has_params_def)
  have c3: "c3 = ln 9 # replicate 9 0" and w3: "w3 = replicate 128 (replicate 10 0)"
    using q(9,11) assms(2) by (simp_all add: biased_def)
  have pos: "(0::nat) < 784" "(0::nat) < 256" "(0::nat) < 128" "(0::nat) < 10" by simp_all
  note g = net_eq_general(1)[OF q pos assms(3,4), of real_arith]
  let ?h1 = "relu_rows real_arith (affine real_arith X w1 c1)"
  let ?h2 = "relu_rows real_arith (affine real_arith ?h1 w2 c2)"
  have "is_mat n 256 ?h1"
    using assms(3) q(2,4) by (simp add: is_mat_relu_rows is_mat_affine[of n 784])
  then have "is_mat n 128 ?h2"
    using q(6,8) by (simp add: is_mat_relu_rows is_mat_affine[of n 256])
  then have "affine real_arith ?h2 (replicate 128 (replicate 10 0)) (ln 9 # replicate 9 0)
             = replicate n (ln 9 # replicate 9 0)"
    by (rule affine_zero_weights) simp_all
  then have "mlp real_arith w1 c1 w2 c2 w3 c3 X = replicate n (1 / 2 # replicate 9 (1 / 18))"
    by (simp add: mlp_def c3 w3 softmax_rows_biased)
  then show ?thesis using g by simp
qed

lemma descent_zero:
  "descent real_arith lr v (nd_zeros_like real_arith v) = v"
  by (cases v)
     (simp_all add: descent_def nd_zeros_like_def zip_map2 zip_same_conv_map comp_def
       real_arith_def map_idI)

lemma biased_step:
  assumes "initialised \<sigma>" "biased \<sigma>"
    "SGD real_arith params lr (backward zero_grad \<sigma> data y) = Some \<sigma>'"
  shows "biased \<sigma>'"
proof -
  let ?\<sigma>1 = "backward zero_grad \<sigma> data y"
  have i1: "initialised ?\<sigma>1" using grad_ok_zero_grad assms(1) by (rule initialised_backward)
  have d: "distinct params" by (simp add: globals_defs)
  from SGD_distinct[OF d initialised_attached[OF i1], of real_arith lr] assms(3)
  have u: "\<And>p t g. p \<in> set params \<Longrightarrow> ?\<sigma>1 p = Some t \<Longrightarrow> grad t = Some g \<Longrightarrow>
             \<sigma>' p = Some (t\<lparr>buf := descent real_arith lr (buf t) g\<rparr>)"
    by auto
  have keep: "lookup \<sigma>' p = lookup \<sigma> p" if "p \<in> set params" for p
  proof -
    from initialised_attached[OF assms(1)] that obtain t where t: "\<sigma> p = Some t" "attached t"
      by blast
    then have g: "grad t \<noteq> None" by (auto simp: attached_def split: option.splits)
    have "?\<sigma>1 p = Some (t\<lparr>grad := Some (nd_zeros_like real_arith (buf t))\<rparr>)"
      using t(1) g that by (simp add: backward_def zero_grad_def)
    from u[OF that this] have "\<sigma>' p = Some (t\<lparr>grad := Some (nd_zeros_like real_arith (buf t)),
        buf := buf t\<rparr>)"
      by (simp add: descent_zero)
    then show ?thesis using t(1) by (simp add: lookup_def)
  qed
  have "W3 \<in> set params" "b3 \<in> set params" by (simp_all add: params_def)
  then show ?thesis using assms(2) keep by (simp add: biased_def)
qed

lemma one_hot_label:
  "nd_one_hot real_arith (Vec [0]) 10 = Mat [one_hot_row 10 0]"
  "nd_one_hot real_arith (Vec [1]) 10 = Mat [one_hot_row 10 1]"
  by (simp_all add: nd_one_hot_def one_hot_row_def real_arith_def)

lemma initialised_biased_store: "initialised biased_store"
proof -
  have "has_shape biased_store b3 [10]"
    by (simp add: has_shape_def biased_store_def attached_def)
  moreover have "has_shape biased_store a s" if "has_shape zero_store a s" "a \<noteq> b3" for a s
    using that by (simp add: has_shape_def biased_store_def)
  ultimately show ?thesis
    using initialised_zero_store by (simp add: initialised_def globals_defs)
qed

lemma biased_biased_store: "biased biased_store"
  by (simp add: biased_def biased_store_def zero_store_def lookup_def globals_defs)

lemma train_batch_biased:
  assumes "initialised \<sigma>" "biased \<sigma>"
  shows "\<exists>\<sigma>'. train_batch real_arith zero_grad \<sigma> hit_batch = Some (\<sigma>', Vec [- ln (1 / 2)])
              \<and> initialised \<sigma>' \<and> biased \<sigma>'"
    and "\<exists>\<sigma>'. train_batch real_arith zero_grad \<sigma> miss_batch = Some (\<sigma>', Vec [- ln (1 / 18)])
              \<and> initialised \<sigma>' \<and> biased \<sigma>'"
proof -
  have step: "\<exists>\<sigma>'. train_batch real_arith zero_grad \<sigma> \<lparr>bdata = image0, blabel = Vec [l]\<rparr>
                 = Some (\<sigma>', Vec [- ln ((1 / 2 # replicate 9 (1 / 18)) ! c)])
              \<and> initialised \<sigma>' \<and> biased \<sigma>'"
    if oh: "nd_one_hot real_arith (Vec [l]) 10 = Mat [one_hot_row 10 c]" and c: "c < 10" for l c
  proof -
    let ?b = "\<lparr>bdata = image0, blabel = Vec [l]\<rparr>"
    have wb: "wf_batch ?b" by (simp add: wf_batch_def image0_def)
    from train_batch_detail[OF assms(1) grad_ok_zero_grad wb, of real_arith]
    obtain l' X Y \<sigma>' where
      d: "blabel ?b = Vec l'" "is_mat (length l') 784 X"
        "net real_arith \<sigma> (Mat X) = Some (Mat Y)"
        "SGD real_arith params (1 / 100)
           (backward zero_grad \<sigma> (Mat X) (nd_one_hot real_arith (Vec l') 10)) = Some \<sigma>'"
        "train_batch real_arith zero_grad \<sigma> ?b
           = Some (\<sigma>', Vec (map2 (ce_row real_arith)
                (rows_of (nd_one_hot real_arith (Vec l') 10)) Y))"
        "initialised \<sigma>'"
      by blast
    have l': "l' = [l]" using d(1) by simp
    have Y: "Y = [1 / 2 # replicate 9 (1 / 18)]"
      using net_biased[OF assms d(2)] d(3) by (simp add: l')
    have "ce_row real_arith (one_hot_row 10 c) (1 / 2 # replicate 9 (1 / 18))
          = - ln ((1 / 2 # replicate 9 (1 / 18)) ! c)"
      using c by (intro ce_row_one_hot) simp_all
    then have loss: "map2 (ce_row real_arith) (rows_of (nd_one_hot real_arith (Vec l') 10)) Y
          = [- ln ((1 / 2 # replicate 9 (1 / 18)) ! c)]"
      by (simp add: l' oh Y)
    have "biased \<sigma>'" using assms d(4) by (rule biased_step)
    then show ?thesis using d(5,6) loss by simp
  qed
  show "\<exists>\<sigma>'. train_batch real_arith zero_grad \<sigma> hit_batch = Some (\<sigma>', Vec [- ln (1 / 2)])
              \<and> initialised \<sigma>' \<and> biased \<sigma>'"
    using step[OF one_hot_label(1)] by (simp add: hit_batch_def)
  show "\<exists>\<sigma>'. train_batch real_arith zero_grad \<sigma> miss_batch = Some (\<sigma>', Vec [- ln (1 / 18)])
              \<and> initialised \<sigma>' \<and> biased \<sigma>'"
    using step[OF one_hot_label(2)] by (simp add: miss_batch_def)
qed

lemma first_sample_losses_biased:
  "first_sample_losses real_arith zero_grad biased_store [hit_batch, miss_batch]
   = Some [- ln (1 / 2), - ln (1 / 18)]"
proof -
  from train_batch_biased(1)[OF initialised_biased_store biased_biased_store] obtain \<sigma>1 where
    1: "train_batch real_arith zero_grad biased_store hit_batch = Some (\<sigma>1, Vec [- ln (1 / 2)])"
      "initialised \<sigma>1" "biased \<sigma>1" by blast
  from train_batch_biased(2)[OF 1(2,3)] obtain \<sigma>2 where
    2: "train_batch real_arith zero_grad \<sigma>1 miss_batch = Some (\<sigma>2, Vec [- ln (1 / 18)])"
    by blast
  show ?thesis by (simp add: 1(1) 2 element0_def)
qed

text \<open>
  Claim C9. The loss printed for an epoch is computed from element 0 of the loss vector of
  each batch only: it starts from the element 0 of the first batch, whatever the moving loss
  was before the epoch, and each later batch replaces it by 0.99 times itself plus 0.01
  times the element 0 of that batch. This holds for every arithmetic.
\<close>

theorem moving_loss_is_average_of_first_losses:
  assumes "initialised (tensors s)" "grad_ok G" "list_all wf_batch train_data"
    "train_data \<noteq> []" "list_all wf_batch test_data"
  shows "\<exists>s' l ls train_accuracy test_accuracy.
           train_epochs A G train_data test_data [e] s = Some s'
           \<and> first_sample_losses A G (tensors s) train_data = Some (l # ls)
           \<and> length (l # ls) = length train_data
           \<and> moving_loss s'
               = foldl (\<lambda>previous current.
                   fadd A (fmul A (lit A (99 / 100)) previous) (fmul A (lit A (1 / 100)) current))
                 l ls
           \<and> printed s' = printed s @ [(e, moving_loss s', train_accuracy, test_accuracy)]"
proof -
  have e: "ema_step A = (\<lambda>previous current.
      fadd A (fmul A (lit A (99 / 100)) previous) (fmul A (lit A (1 / 100)) current))"
    by (intro ext) (simp add: ema_step_def)
  from train_epochs_step[OF assms, of A e "[]"] obtain \<sigma> l ls m2 ta te where
    t: "first_sample_losses A G (tensors s) train_data = Some (l # ls)"
      "train_epochs A G train_data test_data [e] s
         = train_epochs A G train_data test_data []
             (s\<lparr>tensors := \<sigma>, the_metric := m2, moving_loss := foldl (ema_step A) l ls,
                printed := printed s @ [(e, foldl (ema_step A) l ls, ta, te)]\<rparr>)"
    by blast
  have len: "length ls' = length bs'" if "first_sample_losses A G \<sigma>' bs' = Some ls'"
    for \<sigma>' bs' ls'
    using that
    by (induction bs' arbitrary: \<sigma>' ls') (auto simp: bind_eq_Some_conv)
  have "length (l # ls) = length train_data" using len[OF t(1)] .
  then show ?thesis using t unfolding e by auto
qed

theorem moving_loss_is_average_of_first_losses_witness:
  "initialised biased_store \<and> grad_ok zero_grad
   \<and> list_all wf_batch [hit_batch, miss_batch] \<and> list_all wf_batch [hit_batch]
   \<and> (\<exists>s' train_accuracy test_accuracy.
         train_epochs real_arith zero_grad [hit_batch, miss_batch] [hit_batch] [3]
             \<lparr>tensors = biased_store, the_metric = Accuracy, moving_loss = 7, printed = []\<rparr>
           = Some s'
       \<and> first_sample_losses real_arith zero_grad biased_store [hit_batch, miss_batch]
           = Some [- ln (1 / 2), - ln (1 / 18)]
       \<and> printed s'
           = [(3, 99 / 100 * (- ln (1 / 2)) + 1 / 100 * (- ln (1 / 18)),
               train_accuracy, test_accuracy)])
   \<and> - ln (1 / 2) \<noteq> - ln (1 / 18 :: real)"
proof -
  let ?s = "\<lparr>tensors = biased_store, the_metric = Accuracy, moving_loss = 7::real, printed = []\<rparr>"
  have b: "list_all wf_batch [hit_batch, miss_batch]" "list_all wf_batch [hit_batch]"
    by (simp_all add: wf_example_batches)
  have i: "initialised (tensors ?s)" using initialised_biased_store by simp
  have ne: "[hit_batch, miss_batch] \<noteq> []" by simp
  from moving_loss_is_average_of_first_losses[OF i grad_ok_zero_grad b(1) ne b(2),
      of real_arith 3]
  obtain s' l ls ta te where r:
    "train_epochs real_arith zero_grad [hit_batch, miss_batch] [hit_batch] [3] ?s = Some s'"
    "first_sample_losses real_arith zero_grad (tensors ?s) [hit_batch, miss_batch] = Some (l # ls)"
    "moving_loss s'
       = foldl (\<lambda>previous current.
           fadd real_arith (fmul real_arith (lit real_arith (99 / 100)) previous)
             (fmul real_arith (lit real_arith (1 / 100)) current)) l ls"
    "printed s' = printed ?s @ [(3, moving_loss s', ta, te)]"
    by blast
  have "Some (l # ls) = Some [- ln (1 / 2), - ln (1 / 18)]"
    using r(2) first_sample_losses_biased by (simp del: first_sample_losses.simps)
  then have l: "l = - ln (1 / 2)" "ls = [- ln (1 / 18)]"
    by simp_all
  have ml: "moving_loss s' = 99 / 100 * (- ln (1 / 2)) + 1 / 100 * (- ln (1 / 18))"
    unfolding r(3) l by (simp add: real_arith_def)
  have p: "printed s'
           = [(3, 99 / 100 * (- ln (1 / 2)) + 1 / 100 * (- ln (1 / 18)), ta, te)]"
    unfolding r(4) ml by simp
  have n: "- ln (1 / 2) \<noteq> - ln (1 / 18 :: real)"
    by simp
  show ?thesis
    using initialised_biased_store grad_ok_zero_grad b r(1) first_sample_losses_biased p n
    by blast
qed

end
